theory Spec2Isabelle
  imports Complex_Main "HOL-Library.Log_Nat"
begin

section \<open>Green-Logistics: emission and route optimisation engine (app.py)\<close>

text \<open>
  The engine of \<^verbatim>\<open>app.py\<close> is four functions over Python floats:
  \<^verbatim>\<open>get_coordinates\<close>, \<^verbatim>\<open>calculate_distance\<close>, \<^verbatim>\<open>calculate_co2\<close> and
  \<^verbatim>\<open>optimize_route\<close>, plus the carbon price conversion inlined in \<^verbatim>\<open>main\<close>.
  Python's exceptions are values of the type \<open>error\<close>.

  The arithmetic is embedded at two levels. The first takes every product, sum and
  comparison of the source as the exact one over the reals; it carries the relational
  properties (bounds between results, monotonicity, symmetry). The second,
  with the suffix \<open>_ieee\<close>, is the arithmetic Python really performs: IEEE 754 binary64
  with rounding to nearest, ties to even, subnormal numbers, overflow to infinity and
  NaN. It carries the properties that depend on the value a call returns.
\<close>

subsection \<open>Python's \<^verbatim>\<open>round(x, 2)\<close>\<close>

text \<open>
  \<^verbatim>\<open>round(x, ndigits)\<close> rounds to the nearest multiple of \<open>10^-ndigits\<close>, and a value
  exactly half way goes to the even neighbour.
\<close>

definition round_half_even :: "real \<Rightarrow> int" where
  "round_half_even x =
     (let f = \<lfloor>x\<rfloor>; r = x - of_int f
      in if r < 1 / 2 then f
         else if 1 / 2 < r then f + 1
         else if even f then f else f + 1)"

definition py_round2 :: "real \<Rightarrow> real" where
  "py_round2 x = of_int (round_half_even (x * 100)) / 100"

subsection \<open>IEEE 754 binary64\<close>

text \<open>
  A Python float is a finite double, an infinity or NaN. A finite double is held by its
  exact value (a negative zero is not told from zero: the two compare equal in Python).
\<close>

datatype double = Num real | PlusInf | MinusInf | NaN

text \<open>\<open>binary_exponent x\<close> is \<open>\<lfloor>log\<^sub>2 x\<rfloor>\<close> for \<open>x > 0\<close>, computed on integers.\<close>

definition binary_exponent :: "real \<Rightarrow> int" where
  "binary_exponent x = (if 1 \<le> x then bitlen \<lfloor>x\<rfloor> - 1 else - bitlen (\<lceil>1 / x\<rceil> - 1))"

text \<open>
  Rounding of an exact value to the nearest double, ties to even: the spacing of the
  doubles around \<open>x\<close> is \<open>2\<^bsup>e - 52\<^esup>\<close> with \<open>e\<close> the binary exponent of \<open>x\<close>, and no
  smaller than \<open>2\<^bsup>-1074\<^esup>\<close> (the subnormal numbers); a result of magnitude \<open>2\<^bsup>1024\<^esup>\<close> is an
  infinity. This is the result of every arithmetic operation on doubles, and of reading
  a decimal literal.
\<close>

definition round_double :: "real \<Rightarrow> double" where
  "round_double x =
     (if x = 0 then Num 0
      else
        (let e = max (binary_exponent \<bar>x\<bar>) (- 1022);
             u = 2 powi (e - 52);
             y = of_int (round_half_even (x / u)) * u
         in if 2 ^ 1024 \<le> y then PlusInf
            else if y \<le> - (2 ^ 1024) then MinusInf
            else Num y))"

text \<open>Python's \<^verbatim>\<open>*\<close>, \<^verbatim>\<open>+\<close>, \<^verbatim>\<open><\<close> and \<^verbatim>\<open><=\<close> on floats.\<close>

definition inf_times :: "real \<Rightarrow> double" where
  "inf_times x = (if 0 < x then PlusInf else if x < 0 then MinusInf else NaN)"

fun dmul :: "double \<Rightarrow> double \<Rightarrow> double" where
  "dmul (Num x) (Num y) = round_double (x * y)"
| "dmul (Num x) PlusInf = inf_times x"
| "dmul (Num x) MinusInf = inf_times (- x)"
| "dmul PlusInf (Num y) = inf_times y"
| "dmul MinusInf (Num y) = inf_times (- y)"
| "dmul PlusInf PlusInf = PlusInf"
| "dmul PlusInf MinusInf = MinusInf"
| "dmul MinusInf PlusInf = MinusInf"
| "dmul MinusInf MinusInf = PlusInf"
| "dmul NaN _ = NaN"
| "dmul _ NaN = NaN"

fun dadd :: "double \<Rightarrow> double \<Rightarrow> double" where
  "dadd (Num x) (Num y) = round_double (x + y)"
| "dadd (Num x) PlusInf = PlusInf"
| "dadd (Num x) MinusInf = MinusInf"
| "dadd PlusInf (Num y) = PlusInf"
| "dadd MinusInf (Num y) = MinusInf"
| "dadd PlusInf PlusInf = PlusInf"
| "dadd MinusInf MinusInf = MinusInf"
| "dadd PlusInf MinusInf = NaN"
| "dadd MinusInf PlusInf = NaN"
| "dadd NaN _ = NaN"
| "dadd _ NaN = NaN"

fun dless :: "double \<Rightarrow> double \<Rightarrow> bool" where
  "dless (Num x) (Num y) = (x < y)"
| "dless (Num x) PlusInf = True"
| "dless MinusInf (Num y) = True"
| "dless MinusInf PlusInf = True"
| "dless _ _ = False"

fun dle :: "double \<Rightarrow> double \<Rightarrow> bool" where
  "dle (Num x) (Num y) = (x \<le> y)"
| "dle (Num x) PlusInf = True"
| "dle MinusInf (Num y) = True"
| "dle MinusInf PlusInf = True"
| "dle PlusInf PlusInf = True"
| "dle MinusInf MinusInf = True"
| "dle _ _ = False"

text \<open>
  \<^verbatim>\<open>round(x, 2)\<close> on a float: the exact value of \<open>x\<close> is rounded to 2 decimals, ties to
  even, and the result is the double nearest to that decimal. Infinities and NaN round
  to themselves.
\<close>

fun py_round2_ieee :: "double \<Rightarrow> double" where
  "py_round2_ieee (Num x) = round_double (of_int (round_half_even (x * 100)) / 100)"
| "py_round2_ieee PlusInf = PlusInf"
| "py_round2_ieee MinusInf = MinusInf"
| "py_round2_ieee NaN = NaN"

subsection \<open>Errors\<close>

datatype error = KeyError string | ValueError

subsection \<open>Reference tables\<close>

text \<open>
  \<^verbatim>\<open>EMISSION_FACTORS = {'Truck': 0.096, 'Train': 0.028, 'Ship': 0.016, 'Plane': 0.602}\<close>
\<close>

definition EMISSION_FACTORS :: "string \<rightharpoonup> real" where
  "EMISSION_FACTORS =
     [''Truck'' \<mapsto> 0.096, ''Train'' \<mapsto> 0.028, ''Ship'' \<mapsto> 0.016, ''Plane'' \<mapsto> 0.602]"

text \<open>Python's \<^verbatim>\<open>d.get(k, default)\<close> and \<^verbatim>\<open>d[k]\<close>.\<close>

definition dict_get :: "('k \<rightharpoonup> 'v) \<Rightarrow> 'k \<Rightarrow> 'v \<Rightarrow> 'v" where
  "dict_get m k dflt = (case m k of None \<Rightarrow> dflt | Some v \<Rightarrow> v)"

definition dict_index :: "(string \<rightharpoonup> 'v) \<Rightarrow> string \<Rightarrow> error + 'v" where
  "dict_index m k = (case m k of None \<Rightarrow> Inl (KeyError k) | Some v \<Rightarrow> Inr v)"

subsection \<open>\<^verbatim>\<open>get_coordinates\<close> and \<^verbatim>\<open>calculate_distance\<close>\<close>

text \<open>
  \<^verbatim>\<open>LOCATIONS\<close> is a dictionary of dictionaries, from country to city to
  \<^verbatim>\<open>(latitude, longitude)\<close> in degrees.
\<close>

definition LOCATIONS :: "string \<rightharpoonup> (string \<rightharpoonup> real \<times> real)" where
  "LOCATIONS =
     [''United Kingdom'' \<mapsto> [''London'' \<mapsto> (51.5074, - 0.1278)],
      ''France'' \<mapsto> [''Paris'' \<mapsto> (48.8566, 2.3522)],
      ''USA'' \<mapsto> [''New York'' \<mapsto> (40.7128, - 74.0060)],
      ''China'' \<mapsto> [''Shanghai'' \<mapsto> (31.2304, 121.4737)],
      ''Japan'' \<mapsto> [''Tokyo'' \<mapsto> (35.6762, 139.6503)],
      ''Australia'' \<mapsto> [''Sydney'' \<mapsto> (- 33.8688, 151.2093)]]"

text \<open>
  \<^verbatim>\<open>
  def get_coordinates(country, city):
      return LOCATIONS.get(country, {}).get(city, (0, 0))
  \<close>
\<close>

definition get_coordinates :: "string \<Rightarrow> string \<Rightarrow> real \<times> real" where
  "get_coordinates country city = dict_get (dict_get LOCATIONS country Map.empty) city (0, 0)"

text \<open>
  The functions of Python's \<^verbatim>\<open>math\<close> module that the distance uses. \<^verbatim>\<open>math.sqrt\<close>
  raises \<^verbatim>\<open>ValueError\<close> on a negative argument; \<^verbatim>\<open>math.atan2(y, x)\<close> is the angle of
  the point \<open>(x, y)\<close> in \<open>(-\<pi>, \<pi>]\<close>, and 0 at the origin.
\<close>

definition radians :: "real \<Rightarrow> real" where
  "radians x = x * pi / 180"

definition py_sqrt :: "real \<Rightarrow> error + real" where
  "py_sqrt x = (if x < 0 then Inl ValueError else Inr (sqrt x))"

definition atan2 :: "real \<Rightarrow> real \<Rightarrow> real" where
  "atan2 y x =
     (if 0 < x then arctan (y / x)
      else if x < 0 then (if 0 \<le> y then arctan (y / x) + pi else arctan (y / x) - pi)
      else if 0 < y then pi / 2
      else if y < 0 then - (pi / 2)
      else 0)"

text \<open>
  \<^verbatim>\<open>
  def calculate_distance(country1, city1, country2, city2):
      lat1, lon1 = get_coordinates(country1, city1)
      lat2, lon2 = get_coordinates(country2, city2)
      if lat1 == 0 and lon1 == 0 or lat2 == 0 and lon2 == 0:
          return 500.0  # Default distance if coordinates not found
      R = 6371  # Earth's radius in km
      dlat = math.radians(lat2 - lat1)
      dlon = math.radians(lon2 - lon1)
      a = math.sin(dlat/2)**2 + math.cos(math.radians(lat1)) * math.cos(math.radians(lat2)) * math.sin(dlon/2)**2
      c = 2 * math.atan2(math.sqrt(a), math.sqrt(1-a))
      return round(R * c, 2)
  \<close>
\<close>

definition calculate_distance :: "string \<Rightarrow> string \<Rightarrow> string \<Rightarrow> string \<Rightarrow> error + real" where
  "calculate_distance country1 city1 country2 city2 =
     (case get_coordinates country1 city1 of (lat1, lon1) \<Rightarrow>
      case get_coordinates country2 city2 of (lat2, lon2) \<Rightarrow>
        if lat1 = 0 \<and> lon1 = 0 \<or> lat2 = 0 \<and> lon2 = 0 then Inr 500
        else
          (let R = 6371;
               dlat = radians (lat2 - lat1);
               dlon = radians (lon2 - lon1);
               a = (sin (dlat / 2))\<^sup>2
                   + cos (radians lat1) * cos (radians lat2) * (sin (dlon / 2))\<^sup>2
           in case py_sqrt a of
                Inl e \<Rightarrow> Inl e
              | Inr sqrt_a \<Rightarrow>
                  (case py_sqrt (1 - a) of
                     Inl e \<Rightarrow> Inl e
                   | Inr sqrt_1a \<Rightarrow>
                       (let c = 2 * atan2 sqrt_a sqrt_1a
                        in Inr (py_round2 (R * c))))))"

text \<open>
  The distance as the specification words it: the law of haversines on two coordinates
  in degrees, with \<open>R = 6371\<close> km.
\<close>

definition haversine_spec :: "real \<times> real \<Rightarrow> real \<times> real \<Rightarrow> real" where
  "haversine_spec coordA coordB =
     (case coordA of (lat1, lon1) \<Rightarrow> case coordB of (lat2, lon2) \<Rightarrow>
        (let \<Delta>lat = (lat2 - lat1) * pi / 180;
             \<Delta>lon = (lon2 - lon1) * pi / 180;
             a = (sin (\<Delta>lat / 2))\<^sup>2
                 + cos (lat1 * pi / 180) * cos (lat2 * pi / 180) * (sin (\<Delta>lon / 2))\<^sup>2;
             c = 2 * atan2 (sqrt a) (sqrt (1 - a))
         in 6371 * c))"

subsection \<open>\<^verbatim>\<open>calculate_co2\<close>\<close>

text \<open>
  \<^verbatim>\<open>
  def calculate_co2(country1, city1, country2, city2, transport_mode, distance_km, weight_tons):
      emission_factor = EMISSION_FACTORS.get(transport_mode, 0.096)
      co2_kg = distance_km * weight_tons * emission_factor
      return round(co2_kg, 2)
  \<close>
\<close>

definition calculate_co2 ::
  "string \<Rightarrow> string \<Rightarrow> string \<Rightarrow> string \<Rightarrow> string \<Rightarrow> real \<Rightarrow> real \<Rightarrow> real" where
  "calculate_co2 country1 city1 country2 city2 transport_mode distance_km weight_tons =
     (let emission_factor = dict_get EMISSION_FACTORS transport_mode 0.096;
          co2_kg = distance_km * weight_tons * emission_factor
      in py_round2 co2_kg)"

text \<open>
  The factor of a mode as the specification words it: Truck 0.096, Train 0.028,
  Ship 0.016, Plane 0.602, and the Truck factor for any other mode.
\<close>

definition factor_spec :: "string \<Rightarrow> real" where
  "factor_spec m =
     (if m = ''Truck'' then 96 / 1000
      else if m = ''Train'' then 28 / 1000
      else if m = ''Ship'' then 16 / 1000
      else if m = ''Plane'' then 602 / 1000
      else 96 / 1000)"

subsection \<open>\<^verbatim>\<open>optimize_route\<close>\<close>

text \<open>
  A combination is the 4-tuple \<^verbatim>\<open>(mode1, ratio1, mode2, ratio2)\<close>; \<^verbatim>\<open>mode2\<close> is
  \<^verbatim>\<open>None\<close> for a single-mode entry.
\<close>

type_synonym combination = "string \<times> real \<times> string option \<times> real"

text \<open>The truth value Python gives \<^verbatim>\<open>mode2\<close> in \<^verbatim>\<open>... if mode2 else 0\<close>.\<close>

fun truthy :: "string option \<Rightarrow> bool" where
  "truthy None = False"
| "truthy (Some m) = (m \<noteq> [])"

text \<open>\<^verbatim>\<open>min_co2\<close> starts as \<^verbatim>\<open>float('inf')\<close> and holds a finite total afterwards.\<close>

datatype py_float = Fin real | PosInf

fun less_float :: "real \<Rightarrow> py_float \<Rightarrow> bool" where
  "less_float x PosInf = True"
| "less_float x (Fin m) = (x < m)"

fun round2_float :: "py_float \<Rightarrow> py_float" where
  "round2_float PosInf = PosInf"
| "round2_float (Fin x) = Fin (py_round2 x)"

text \<open>
  The four variables the loop updates, which are also the four components of the
  returned tuple.
\<close>

record route_state =
  best_option :: "combination option"
  min_co2 :: py_float
  best_breakdown :: "(real \<times> real) option"
  best_distances :: "(real \<times> real) option"

text \<open>
  Lines 118 to 155: the classification of the call and the candidate list it selects.
\<close>

definition combinations_for :: "string \<Rightarrow> string \<Rightarrow> real \<Rightarrow> combination list" where
  "combinations_for country1 country2 distance_km =
     (let intercontinental = (country1 \<noteq> country2);
          distance_short = (distance_km < 1000);
          distance_medium = (1000 \<le> distance_km \<and> distance_km < 5000);
          distance_long = (distance_km \<ge> 5000)
      in if intercontinental then
           if distance_long then
             [(''Ship'', 0.9, Some ''Train'', 0.1),
              (''Ship'', 0.8, Some ''Truck'', 0.2),
              (''Plane'', 0.5, Some ''Ship'', 0.5)]
           else if distance_medium then
             [(''Ship'', 0.7, Some ''Train'', 0.3),
              (''Plane'', 0.4, Some ''Truck'', 0.6),
              (''Ship'', 0.6, Some ''Plane'', 0.4)]
           else
             [(''Train'', 0.8, Some ''Truck'', 0.2),
              (''Ship'', 0.5, Some ''Truck'', 0.5),
              (''Plane'', 0.3, Some ''Truck'', 0.7)]
         else
           if distance_short then
             [(''Train'', 0.9, Some ''Truck'', 0.1),
              (''Truck'', 1.0, None, 0.0),
              (''Train'', 1.0, None, 0.0)]
           else
             [(''Train'', 0.7, Some ''Truck'', 0.3),
              (''Truck'', 0.6, Some ''Train'', 0.4),
              (''Plane'', 0.3, Some ''Truck'', 0.7)])"

text \<open>
  Lines 162 to 172: the loop over the combinations. \<^verbatim>\<open>EMISSION_FACTORS[mode]\<close> raises
  \<^verbatim>\<open>KeyError\<close> for a mode that is not in the table.
\<close>

fun route_loop :: "real \<Rightarrow> real \<Rightarrow> combination list \<Rightarrow> route_state \<Rightarrow> error + route_state" where
  "route_loop distance_km weight_tons [] s = Inr s"
| "route_loop distance_km weight_tons ((mode1, ratio1, mode2, ratio2) # rest) s =
     (let dist1 = distance_km * ratio1;
          dist2 = (if truthy mode2 then distance_km * ratio2 else 0)
      in case dict_index EMISSION_FACTORS mode1 of
           Inl e \<Rightarrow> Inl e
         | Inr factor1 \<Rightarrow>
             (let co2_1 = dist1 * weight_tons * factor1
              in case (case mode2 of
                         None \<Rightarrow> Inr 0
                       | Some m2 \<Rightarrow>
                           if truthy mode2
                           then (case dict_index EMISSION_FACTORS m2 of
                                   Inl e \<Rightarrow> Inl e
                                 | Inr factor2 \<Rightarrow> Inr (dist2 * weight_tons * factor2))
                           else Inr 0) of
                   Inl e \<Rightarrow> Inl e
                 | Inr co2_2 \<Rightarrow>
                     (let total_co2 = co2_1 + co2_2
                      in if less_float total_co2 (min_co2 s)
                         then route_loop distance_km weight_tons rest
                                \<lparr>best_option = Some (mode1, ratio1, mode2, ratio2),
                                 min_co2 = Fin total_co2,
                                 best_breakdown = Some (co2_1, co2_2),
                                 best_distances = Some (dist1, dist2)\<rparr>
                         else route_loop distance_km weight_tons rest s)))"

definition optimize_route ::
  "string \<Rightarrow> string \<Rightarrow> string \<Rightarrow> string \<Rightarrow> real \<Rightarrow> real \<Rightarrow> error + route_state" where
  "optimize_route country1 city1 country2 city2 distance_km weight_tons =
     (let combinations = combinations_for country1 country2 distance_km;
          init = \<lparr>best_option = None, min_co2 = PosInf,
                  best_breakdown = None, best_distances = None\<rparr>
      in case route_loop distance_km weight_tons combinations init of
           Inl e \<Rightarrow> Inl e
         | Inr s \<Rightarrow> Inr (s\<lparr>min_co2 := round2_float (min_co2 s)\<rparr>))"

text \<open>
  The optimizer as the specification words it. A candidate strategy is a list of one or
  two \<open>(mode, shareRatio)\<close> segments; the table is indexed by scope (intercontinental or
  domestic) and distance band; the total of a candidate is the sum over its segments of
  \<open>distanceKm \<times> ratio \<times> weightTons \<times> factor(mode)\<close>.
\<close>

datatype band = Short | Medium | Long

definition band_spec :: "real \<Rightarrow> band" where
  "band_spec distanceKm =
     (if distanceKm < 1000 then Short else if distanceKm < 5000 then Medium else Long)"

type_synonym strategy = "(string \<times> real) list"

fun candidates_spec :: "bool \<Rightarrow> band \<Rightarrow> strategy list" where
  "candidates_spec True Long =
     [[(''Ship'', 90 / 100), (''Train'', 10 / 100)],
      [(''Ship'', 80 / 100), (''Truck'', 20 / 100)],
      [(''Plane'', 50 / 100), (''Ship'', 50 / 100)]]"
| "candidates_spec True Medium =
     [[(''Ship'', 70 / 100), (''Train'', 30 / 100)],
      [(''Plane'', 40 / 100), (''Truck'', 60 / 100)],
      [(''Ship'', 60 / 100), (''Plane'', 40 / 100)]]"
| "candidates_spec True Short =
     [[(''Train'', 80 / 100), (''Truck'', 20 / 100)],
      [(''Ship'', 50 / 100), (''Truck'', 50 / 100)],
      [(''Plane'', 30 / 100), (''Truck'', 70 / 100)]]"
| "candidates_spec False Short =
     [[(''Train'', 90 / 100), (''Truck'', 10 / 100)],
      [(''Truck'', 100 / 100)],
      [(''Train'', 100 / 100)]]"
| "candidates_spec False _ =
     [[(''Train'', 70 / 100), (''Truck'', 30 / 100)],
      [(''Truck'', 60 / 100), (''Train'', 40 / 100)],
      [(''Plane'', 30 / 100), (''Truck'', 70 / 100)]]"

fun total_spec :: "real \<Rightarrow> real \<Rightarrow> strategy \<Rightarrow> real" where
  "total_spec distanceKm weightTons [] = 0"
| "total_spec distanceKm weightTons ((m, ratio) # segs) =
     distanceKm * ratio * weightTons * factor_spec m + total_spec distanceKm weightTons segs"

text \<open>The segments of a combination of the source: one when \<^verbatim>\<open>mode2\<close> is \<^verbatim>\<open>None\<close>.\<close>

fun segments_of :: "combination \<Rightarrow> strategy" where
  "segments_of (mode1, ratio1, None, ratio2) = [(mode1, ratio1)]"
| "segments_of (mode1, ratio1, Some mode2, ratio2) = [(mode1, ratio1), (mode2, ratio2)]"

subsection \<open>Carbon price conversion (in \<^verbatim>\<open>main\<close>)\<close>

text \<open>
  \<^verbatim>\<open>
  CARBON_PRICE_EUR_PER_TON = 65.89
  EXCHANGE_RATES = {'EUR': 1.0, 'USD': 1.06, 'AUD': 1.62, 'SAR': 3.98}
  ...
  currency = st.selectbox("Select Currency for Cost Savings", ['EUR', 'USD', 'AUD', 'SAR'])
  carbon_price_per_kg = (CARBON_PRICE_EUR_PER_TON / 1000) * EXCHANGE_RATES[currency]
  total_cost_savings = total_savings * carbon_price_per_kg
  \<close>
  The two assignments are modelled as a function of \<^verbatim>\<open>total_savings\<close> and \<^verbatim>\<open>currency\<close>,
  for any string as currency. The subscript \<^verbatim>\<open>EXCHANGE_RATES[currency]\<close> raises
  \<^verbatim>\<open>KeyError\<close> for a missing key.
\<close>

definition CARBON_PRICE_EUR_PER_TON :: real where
  "CARBON_PRICE_EUR_PER_TON = 65.89"

definition EXCHANGE_RATES :: "string \<rightharpoonup> real" where
  "EXCHANGE_RATES = [''EUR'' \<mapsto> 1.0, ''USD'' \<mapsto> 1.06, ''AUD'' \<mapsto> 1.62, ''SAR'' \<mapsto> 3.98]"

definition total_cost_savings :: "real \<Rightarrow> string \<Rightarrow> error + real" where
  "total_cost_savings total_savings currency =
     (case dict_index EXCHANGE_RATES currency of
        Inl e \<Rightarrow> Inl e
      | Inr rate \<Rightarrow>
          (let carbon_price_per_kg = (CARBON_PRICE_EUR_PER_TON / 1000) * rate
           in Inr (total_savings * carbon_price_per_kg)))"

subsection \<open>The emission model and the optimizer in double arithmetic\<close>

text \<open>
  The same source lines as above, with every literal read as a double and every
  operation rounded. The loop variables \<^verbatim>\<open>best_option\<close>, \<^verbatim>\<open>min_co2\<close>,
  \<^verbatim>\<open>best_breakdown\<close> and \<^verbatim>\<open>best_distances\<close> are a 4-tuple (primed names below), as is
  the returned value.
  The integer \<^verbatim>\<open>0\<close> of \<^verbatim>\<open>... if mode2 else 0\<close> is the double zero.
\<close>

definition EMISSION_FACTORS_ieee :: "string \<rightharpoonup> double" where
  "EMISSION_FACTORS_ieee =
     [''Truck'' \<mapsto> round_double 0.096, ''Train'' \<mapsto> round_double 0.028,
      ''Ship'' \<mapsto> round_double 0.016, ''Plane'' \<mapsto> round_double 0.602]"

definition calculate_co2_ieee ::
  "string \<Rightarrow> string \<Rightarrow> string \<Rightarrow> string \<Rightarrow> string \<Rightarrow> double \<Rightarrow> double \<Rightarrow> double" where
  "calculate_co2_ieee country1 city1 country2 city2 transport_mode distance_km weight_tons =
     (let emission_factor = dict_get EMISSION_FACTORS_ieee transport_mode (round_double 0.096);
          co2_kg = dmul (dmul distance_km weight_tons) emission_factor
      in py_round2_ieee co2_kg)"

type_synonym combination_ieee = "string \<times> double \<times> string option \<times> double"

type_synonym route_vars =
  "combination_ieee option \<times> double \<times> (double \<times> double) option \<times> (double \<times> double) option"

definition combinations_ieee :: "string \<Rightarrow> string \<Rightarrow> double \<Rightarrow> combination_ieee list" where
  "combinations_ieee country1 country2 distance_km =
     (let intercontinental = (country1 \<noteq> country2);
          distance_short = dless distance_km (Num 1000);
          distance_medium = (dle (Num 1000) distance_km \<and> dless distance_km (Num 5000));
          distance_long = dle (Num 5000) distance_km
      in if intercontinental then
           if distance_long then
             [(''Ship'', round_double 0.9, Some ''Train'', round_double 0.1),
              (''Ship'', round_double 0.8, Some ''Truck'', round_double 0.2),
              (''Plane'', round_double 0.5, Some ''Ship'', round_double 0.5)]
           else if distance_medium then
             [(''Ship'', round_double 0.7, Some ''Train'', round_double 0.3),
              (''Plane'', round_double 0.4, Some ''Truck'', round_double 0.6),
              (''Ship'', round_double 0.6, Some ''Plane'', round_double 0.4)]
           else
             [(''Train'', round_double 0.8, Some ''Truck'', round_double 0.2),
              (''Ship'', round_double 0.5, Some ''Truck'', round_double 0.5),
              (''Plane'', round_double 0.3, Some ''Truck'', round_double 0.7)]
         else
           if distance_short then
             [(''Train'', round_double 0.9, Some ''Truck'', round_double 0.1),
              (''Truck'', round_double 1.0, None, round_double 0.0),
              (''Train'', round_double 1.0, None, round_double 0.0)]
           else
             [(''Train'', round_double 0.7, Some ''Truck'', round_double 0.3),
              (''Truck'', round_double 0.6, Some ''Train'', round_double 0.4),
              (''Plane'', round_double 0.3, Some ''Truck'', round_double 0.7)])"

fun route_loop_ieee ::
  "double \<Rightarrow> double \<Rightarrow> combination_ieee list \<Rightarrow> route_vars \<Rightarrow> error + route_vars" where
  "route_loop_ieee distance_km weight_tons [] vars = Inr vars"
| "route_loop_ieee distance_km weight_tons ((mode1, ratio1, mode2, ratio2) # rest)
       (best_option', min_co2', best_breakdown', best_distances') =
     (let dist1 = dmul distance_km ratio1;
          dist2 = (if truthy mode2 then dmul distance_km ratio2 else Num 0)
      in case dict_index EMISSION_FACTORS_ieee mode1 of
           Inl e \<Rightarrow> Inl e
         | Inr factor1 \<Rightarrow>
             (let co2_1 = dmul (dmul dist1 weight_tons) factor1
              in case (case mode2 of
                         None \<Rightarrow> Inr (Num 0)
                       | Some m2 \<Rightarrow>
                           if truthy mode2
                           then (case dict_index EMISSION_FACTORS_ieee m2 of
                                   Inl e \<Rightarrow> Inl e
                                 | Inr factor2 \<Rightarrow> Inr (dmul (dmul dist2 weight_tons) factor2))
                           else Inr (Num 0)) of
                   Inl e \<Rightarrow> Inl e
                 | Inr co2_2 \<Rightarrow>
                     (let total_co2 = dadd co2_1 co2_2
                      in if dless total_co2 min_co2'
                         then route_loop_ieee distance_km weight_tons rest
                                (Some (mode1, ratio1, mode2, ratio2), total_co2,
                                 Some (co2_1, co2_2), Some (dist1, dist2))
                         else route_loop_ieee distance_km weight_tons rest
                                (best_option', min_co2', best_breakdown', best_distances'))))"

definition optimize_route_ieee ::
  "string \<Rightarrow> string \<Rightarrow> string \<Rightarrow> string \<Rightarrow> double \<Rightarrow> double \<Rightarrow> error + route_vars" where
  "optimize_route_ieee country1 city1 country2 city2 distance_km weight_tons =
     (let combinations = combinations_ieee country1 country2 distance_km
      in case route_loop_ieee distance_km weight_tons combinations (None, PlusInf, None, None) of
           Inl e \<Rightarrow> Inl e
         | Inr (best_option', min_co2', best_breakdown', best_distances') \<Rightarrow>
             Inr (best_option', py_round2_ieee min_co2', best_breakdown', best_distances'))"

text \<open>
  The emission model and the optimizer as the specification words them, in double
  arithmetic: the factor table with the Truck factor as default; a candidate strategy
  as a list of \<open>(mode, shareRatio)\<close> segments whose decimal ratios are read as doubles;
  the CO2 of a segment as \<open>distanceKm \<times> ratio \<times> weightTons \<times> factor(mode)\<close>; the total of
  a candidate as the sum of its segments.
\<close>

definition factor_ieee :: "string \<Rightarrow> double" where
  "factor_ieee m =
     (if m = ''Truck'' then round_double (96 / 1000)
      else if m = ''Train'' then round_double (28 / 1000)
      else if m = ''Ship'' then round_double (16 / 1000)
      else if m = ''Plane'' then round_double (602 / 1000)
      else round_double (96 / 1000))"

definition co2_spec_ieee :: "double \<Rightarrow> double \<Rightarrow> string \<Rightarrow> double" where
  "co2_spec_ieee distanceKm weightTons m =
     py_round2_ieee (dmul (dmul distanceKm weightTons) (factor_ieee m))"

type_synonym strategy_ieee = "(string \<times> double) list"

definition literals :: "strategy \<Rightarrow> strategy_ieee" where
  "literals s = map (\<lambda>(m, ratio). (m, round_double ratio)) s"

fun segment_co2_ieee :: "double \<Rightarrow> double \<Rightarrow> string \<times> double \<Rightarrow> double" where
  "segment_co2_ieee distanceKm weightTons (m, ratio) =
     dmul (dmul (dmul distanceKm ratio) weightTons) (factor_ieee m)"

fun total_spec_ieee :: "double \<Rightarrow> double \<Rightarrow> strategy_ieee \<Rightarrow> double" where
  "total_spec_ieee distanceKm weightTons [] = Num 0"
| "total_spec_ieee distanceKm weightTons (seg # segs) =
     dadd (segment_co2_ieee distanceKm weightTons seg) (total_spec_ieee distanceKm weightTons segs)"

fun segments_of_ieee :: "combination_ieee \<Rightarrow> strategy_ieee" where
  "segments_of_ieee (mode1, ratio1, None, ratio2) = [(mode1, ratio1)]"
| "segments_of_ieee (mode1, ratio1, Some mode2, ratio2) = [(mode1, ratio1), (mode2, ratio2)]"

text \<open>The combination of the source that stands for a strategy of the table.\<close>

fun combination_of :: "strategy \<Rightarrow> combination_ieee" where
  "combination_of [(mode1, ratio1), (mode2, ratio2)] =
     (mode1, round_double ratio1, Some mode2, round_double ratio2)"
| "combination_of [(mode1, ratio1)] = (mode1, round_double ratio1, None, round_double 0)"
| "combination_of _ = ([], Num 0, None, Num 0)"

text \<open>
  The shape of an entry of the table: one segment with ratio 1, or two segments with
  ratios between 0 and 1 that sum to 1; the modes are keys of the factor table.
\<close>

fun share_ok :: "strategy \<Rightarrow> bool" where
  "share_ok [(mode1, ratio1), (mode2, ratio2)] =
     (0 \<le> ratio1 \<and> ratio1 \<le> 1 \<and> 0 \<le> ratio2 \<and> ratio2 \<le> 1 \<and> ratio1 + ratio2 = 1
      \<and> mode1 \<in> dom EMISSION_FACTORS_ieee \<and> mode2 \<in> dom EMISSION_FACTORS_ieee)"
| "share_ok [(mode1, ratio1)] = (ratio1 = 1 \<and> mode1 \<in> dom EMISSION_FACTORS_ieee)"
| "share_ok _ = False"

fun is_finite :: "double \<Rightarrow> bool" where
  "is_finite (Num x) = True"
| "is_finite PlusInf = False"
| "is_finite MinusInf = False"
| "is_finite NaN = False"

text \<open>
  For the proofs about the loop in double arithmetic: a combination whose modes are keys
  of the factor table, and the loop variables right after a combination has been taken.
\<close>

definition known_modes_ieee :: "combination_ieee \<Rightarrow> bool" where
  "known_modes_ieee c =
     (case c of (mode1, ratio1, mode2, ratio2) \<Rightarrow>
        mode1 \<in> dom EMISSION_FACTORS_ieee \<and>
        (case mode2 of None \<Rightarrow> True | Some m2 \<Rightarrow> m2 \<in> dom EMISSION_FACTORS_ieee))"

fun chosen_ieee :: "double \<Rightarrow> double \<Rightarrow> combination_ieee \<Rightarrow> route_vars" where
  "chosen_ieee distance_km weight_tons (mode1, ratio1, mode2, ratio2) =
     (let dist1 = dmul distance_km ratio1;
          dist2 = (case mode2 of None \<Rightarrow> Num 0 | Some m2 \<Rightarrow> dmul distance_km ratio2);
          co2_1 = dmul (dmul dist1 weight_tons) (factor_ieee mode1);
          co2_2 = (case mode2 of None \<Rightarrow> Num 0
                   | Some m2 \<Rightarrow> dmul (dmul dist2 weight_tons) (factor_ieee m2))
      in (Some (mode1, ratio1, mode2, ratio2), dadd co2_1 co2_2,
          Some (co2_1, co2_2), Some (dist1, dist2)))"

text \<open>
  Two notions for the proofs about the loop: a combination whose modes are keys of the
  factor table, and the state the loop holds right after it has taken a combination.
\<close>

definition known_modes :: "combination \<Rightarrow> bool" where
  "known_modes c =
     (case c of (mode1, ratio1, mode2, ratio2) \<Rightarrow>
        mode1 \<in> dom EMISSION_FACTORS \<and>
        (case mode2 of None \<Rightarrow> True | Some m2 \<Rightarrow> m2 \<in> dom EMISSION_FACTORS))"

definition chosen :: "real \<Rightarrow> real \<Rightarrow> combination \<Rightarrow> route_state" where
  "chosen distance_km weight_tons c =
     (case c of (mode1, ratio1, mode2, ratio2) \<Rightarrow>
        \<lparr>best_option = Some c,
         min_co2 = Fin (total_spec distance_km weight_tons (segments_of c)),
         best_breakdown =
           Some (distance_km * ratio1 * weight_tons * factor_spec mode1,
                 total_spec distance_km weight_tons (tl (segments_of c))),
         best_distances =
           Some (distance_km * ratio1, (if mode2 = None then 0 else distance_km * ratio2))\<rparr>)"

text \<open>
  The CO2 of a strategy per km and ton: its total is \<open>distanceKm \<times> weightTons\<close> times
  this coefficient.
\<close>

fun coefficient :: "strategy \<Rightarrow> real" where
  "coefficient [] = 0"
| "coefficient ((m, ratio) # segs) = ratio * factor_spec m + coefficient segs"

section \<open>Properties\<close>

subsection \<open>Rounding\<close>

lemma round_half_even_lower: "x - 1 / 2 \<le> of_int (round_half_even x)"
  unfolding round_half_even_def Let_def by (auto; linarith)

lemma round_half_even_upper: "of_int (round_half_even x) \<le> x + 1 / 2"
  unfolding round_half_even_def Let_def by (auto; linarith)

lemma round_half_even_mono:
  assumes "x \<le> y"
  shows "round_half_even x \<le> round_half_even y"
proof (cases "\<lfloor>x\<rfloor> = \<lfloor>y\<rfloor>")
  case True
  with assms show ?thesis
    unfolding round_half_even_def Let_def by auto
next
  case False
  from assms have "\<lfloor>x\<rfloor> \<le> \<lfloor>y\<rfloor>" by (rule floor_mono)
  with False have lt: "\<lfloor>x\<rfloor> + 1 \<le> \<lfloor>y\<rfloor>" by simp
  have "round_half_even x \<le> \<lfloor>x\<rfloor> + 1"
    unfolding round_half_even_def Let_def by auto
  moreover have "\<lfloor>y\<rfloor> \<le> round_half_even y"
    unfolding round_half_even_def Let_def by auto
  ultimately show ?thesis using lt by linarith
qed

lemma py_round2_mono: "x \<le> y \<Longrightarrow> py_round2 x \<le> py_round2 y"
  unfolding py_round2_def
  by (simp add: round_half_even_mono divide_right_mono)

lemma py_round2_near: "\<bar>py_round2 x - x\<bar> \<le> 1 / 200"
proof -
  have "x * 100 - 1 / 2 \<le> of_int (round_half_even (x * 100))"
    by (rule round_half_even_lower)
  moreover have "of_int (round_half_even (x * 100)) \<le> x * 100 + 1 / 2"
    by (rule round_half_even_upper)
  ultimately show ?thesis unfolding py_round2_def by linarith
qed

subsection \<open>Rounding to a double\<close>

lemma round_half_even_of_int: "round_half_even (of_int m) = m"
  unfolding round_half_even_def Let_def by simp

lemma round_half_even_unique:
  assumes "\<bar>x - of_int m\<bar> < 1 / 2"
  shows "round_half_even x = m"
proof -
  have l: "x - 1 / 2 \<le> of_int (round_half_even x)" by (rule round_half_even_lower)
  have u: "of_int (round_half_even x) \<le> x + 1 / 2" by (rule round_half_even_upper)
  from assms l u have "of_int (round_half_even x) - (of_int m :: real) < 1"
    and "(of_int m :: real) - of_int (round_half_even x) < 1" by linarith+
  then have "round_half_even x - m < 1" "m - round_half_even x < 1"
    by (metis of_int_diff of_int_less_1_iff)+
  then show ?thesis by linarith
qed

lemma binary_exponent_bounds:
  assumes "0 < x"
  shows "2 powi (binary_exponent x) \<le> x" and "x < 2 powi (binary_exponent x + 1)"
proof -
  show "2 powi (binary_exponent x) \<le> x"
  proof (cases "1 \<le> x")
    case True
    then have n: "0 < \<lfloor>x\<rfloor>" by simp
    let ?b = "bitlen \<lfloor>x\<rfloor>"
    from bitlen_bounds [OF n] have "(2::int) ^ nat (?b - 1) \<le> \<lfloor>x\<rfloor>" by simp
    then have "real_of_int (2 ^ nat (?b - 1)) \<le> of_int \<lfloor>x\<rfloor>" by (simp only: of_int_le_iff)
    then have "(2::real) ^ nat (?b - 1) \<le> x" by (simp add: le_floor_iff)
    moreover from n have "1 \<le> ?b" by (auto simp: bitlen_alt_def)
    ultimately show ?thesis using True
      by (simp add: binary_exponent_def power_int_def)
  next
    case False
    let ?c = "\<lceil>1 / x\<rceil>"
    from False assms have y: "1 < 1 / x" by simp
    then have c: "0 < ?c - 1" by (simp add: less_ceiling_iff)
    let ?b = "bitlen (?c - 1)"
    from bitlen_bounds [OF c] have "?c - 1 < 2 ^ nat ?b" by simp
    then have "?c \<le> 2 ^ nat ?b" by simp
    then have "real_of_int ?c \<le> of_int (2 ^ nat ?b)" by (simp only: of_int_le_iff)
    moreover have "real_of_int (2 ^ nat ?b) = 2 ^ nat ?b" by simp
    moreover have "1 / x \<le> real_of_int ?c" by (rule le_of_int_ceiling)
    ultimately have "1 / x \<le> 2 ^ nat ?b" by linarith
    with assms have "1 / 2 ^ nat ?b \<le> x" by (simp add: field_simps)
    moreover have "0 \<le> ?b" by (rule bitlen_nonneg)
    then have "2 powi (- ?b) = 1 / (2::real) ^ nat ?b"
      by (simp only: power_int_minus_divide power_int_nonneg_exp)
    moreover from False have "binary_exponent x = - ?b" by (simp add: binary_exponent_def)
    ultimately show ?thesis by (simp only:)
  qed
  show "x < 2 powi (binary_exponent x + 1)"
  proof (cases "1 \<le> x")
    case True
    then have n: "0 < \<lfloor>x\<rfloor>" by simp
    let ?b = "bitlen \<lfloor>x\<rfloor>"
    from bitlen_bounds [OF n] have "\<lfloor>x\<rfloor> < 2 ^ nat ?b" by simp
    then have "\<lfloor>x\<rfloor> + 1 \<le> 2 ^ nat ?b" by simp
    then have "real_of_int (\<lfloor>x\<rfloor> + 1) \<le> of_int (2 ^ nat ?b)" by (simp only: of_int_le_iff)
    then have "real_of_int \<lfloor>x\<rfloor> + 1 \<le> 2 ^ nat ?b" by simp
    moreover have "x < real_of_int \<lfloor>x\<rfloor> + 1" by linarith
    ultimately have "x < 2 ^ nat ?b" by linarith
    moreover have "0 \<le> ?b" by (rule bitlen_nonneg)
    ultimately show ?thesis using True
      by (simp add: binary_exponent_def power_int_def)
  next
    case False
    let ?c = "\<lceil>1 / x\<rceil>"
    from False assms have y: "1 < 1 / x" by simp
    then have c: "0 < ?c - 1" by (simp add: less_ceiling_iff)
    let ?b = "bitlen (?c - 1)"
    from c have b1: "1 \<le> ?b" by (auto simp: bitlen_alt_def)
    from bitlen_bounds [OF c] have "(2::int) ^ nat (?b - 1) \<le> ?c - 1" by simp
    then have "real_of_int (2 ^ nat (?b - 1)) \<le> of_int (?c - 1)" by (simp only: of_int_le_iff)
    moreover have "real_of_int (?c - 1) < 1 / x" by linarith
    moreover have "real_of_int (2 ^ nat (?b - 1)) = 2 ^ nat (?b - 1)" by simp
    ultimately have "2 ^ nat (?b - 1) < 1 / x" by linarith
    with assms have "x < 1 / 2 ^ nat (?b - 1)" by (simp add: field_simps)
    moreover have "2 powi (- ?b + 1) = 1 / (2::real) ^ nat (?b - 1)"
    proof -
      have "- ?b + 1 = - (?b - 1)" by simp
      then have "(2::real) powi (- ?b + 1) = 1 / 2 powi (?b - 1)"
        by (simp only: power_int_minus_divide)
      also from b1 have "(2::real) powi (?b - 1) = 2 ^ nat (?b - 1)"
        by (simp only: power_int_nonneg_exp diff_ge_0_iff_ge)
      finally show ?thesis .
    qed
    moreover from False have "binary_exponent x = - ?b" by (simp add: binary_exponent_def)
    ultimately show ?thesis by (simp only:)
  qed
qed

lemma binary_exponent_unique:
  assumes "2 powi e \<le> x" and "x < 2 powi (e + 1)"
  shows "binary_exponent x = e"
proof -
  have "(0::real) < 2 powi e" by (simp add: zero_less_power_int)
  with assms(1) have pos: "0 < x" by linarith
  let ?b = "binary_exponent x"
  from binary_exponent_bounds [OF pos] have b: "2 powi ?b \<le> x" "x < 2 powi (?b + 1)" by simp_all
  have "?b < e + 1"
  proof (rule ccontr)
    assume "\<not> ?b < e + 1"
    then have "e + 1 \<le> ?b" by simp
    then have "(2::real) powi (e + 1) \<le> 2 powi ?b" by (rule power_int_increasing) simp
    with b(1) assms(2) show False by linarith
  qed
  moreover have "e < ?b + 1"
  proof (rule ccontr)
    assume "\<not> e < ?b + 1"
    then have "?b + 1 \<le> e" by simp
    then have "(2::real) powi (?b + 1) \<le> 2 powi e" by (rule power_int_increasing) simp
    with b(2) assms(1) show False by linarith
  qed
  ultimately show ?thesis by simp
qed

lemma round_double_error:
  assumes "\<bar>x\<bar> \<le> 2 ^ 1023"
  shows "\<exists>y. round_double x = Num y \<and> \<bar>y - x\<bar> \<le> \<bar>x\<bar> / 2 ^ 53 + 1 / 2 ^ 1075"
proof (cases "x = 0")
  case True
  then show ?thesis by (simp add: round_double_def)
next
  case False
  then have pos: "0 < \<bar>x\<bar>" by simp
  define e where "e = max (binary_exponent \<bar>x\<bar>) (- 1022)"
  define u :: real where "u = 2 powi (e - 52)"
  define y where "y = of_int (round_half_even (x / u)) * u"
  have u0: "0 < u" unfolding u_def by (simp add: zero_less_power_int)
  have "x / u - 1 / 2 \<le> of_int (round_half_even (x / u))"
    and "of_int (round_half_even (x / u)) \<le> x / u + 1 / 2"
    by (rule round_half_even_lower, rule round_half_even_upper)
  then have "(x / u - 1 / 2) * u \<le> y" and "y \<le> (x / u + 1 / 2) * u"
    unfolding y_def using u0 by (simp_all add: mult_right_mono)
  moreover have "(x / u - 1 / 2) * u = x - u / 2" "(x / u + 1 / 2) * u = x + u / 2"
    using u0 by (simp_all add: field_simps)
  ultimately have yx: "\<bar>y - x\<bar> \<le> u / 2" by linarith
  have ub: "u / 2 \<le> \<bar>x\<bar> / 2 ^ 53 + 1 / 2 ^ 1075"
  proof (cases "- 1022 \<le> binary_exponent \<bar>x\<bar>")
    case True
    then have e: "e = binary_exponent \<bar>x\<bar>" by (simp add: e_def)
    have "u = 2 powi e / 2 powi 52" unfolding u_def by (rule power_int_diff) simp
    also have "\<dots> = 2 powi e / 2 ^ 52" by simp
    finally have "u = 2 powi e / 2 ^ 52" .
    moreover from binary_exponent_bounds(1) [OF pos] e have "2 powi e \<le> \<bar>x\<bar>" by simp
    ultimately have "u \<le> \<bar>x\<bar> / 2 ^ 52" by (simp add: divide_right_mono)
    then have "u / 2 \<le> \<bar>x\<bar> / 2 ^ 53" by simp
    then show ?thesis by simp
  next
    case F: False
    then have "e = - 1022" by (simp add: e_def)
    then have "u = 2 powi (- 1074)" by (simp add: u_def)
    also have "\<dots> = 1 / 2 ^ 1074" by (simp only: power_int_minus_divide power_int_numeral)
    finally have "u / 2 = 1 / 2 ^ 1075" by simp
    then show ?thesis by simp
  qed
  from yx ub have err: "\<bar>y - x\<bar> \<le> \<bar>x\<bar> / 2 ^ 53 + 1 / 2 ^ 1075" by linarith
  have "\<bar>x\<bar> / 2 ^ 53 \<le> 2 ^ 1023 / 2 ^ 53" using assms by (simp add: divide_right_mono)
  also have "\<dots> = (2::real) ^ 970" by simp
  finally have "\<bar>x\<bar> / 2 ^ 53 \<le> 2 ^ 970" .
  moreover have "1 / 2 ^ 1075 \<le> (1::real)" by simp
  moreover have "(2::real) ^ 1023 + 2 ^ 970 + 1 < 2 ^ 1024" by simp
  ultimately have fin: "\<bar>y\<bar> < 2 ^ 1024" using err assms by linarith
  then have "\<not> 2 ^ 1024 \<le> y" and "\<not> y \<le> - (2 ^ 1024)" by linarith+
  with False have "round_double x = Num y"
    unfolding round_double_def Let_def e_def [symmetric] u_def [symmetric] y_def [symmetric]
    by simp
  with err show ?thesis by blast
qed

lemma round_double_overflow:
  assumes "2 ^ 1024 \<le> x"
  shows "round_double x = PlusInf"
proof -
  from assms have pos: "0 < x" by (smt (verit) zero_less_power)
  then have ax: "\<bar>x\<bar> = x" by simp
  define e where "e = max (binary_exponent \<bar>x\<bar>) (- 1022)"
  define u :: real where "u = 2 powi (e - 52)"
  define y where "y = of_int (round_half_even (x / u)) * u"
  have u0: "0 < u" unfolding u_def by (simp add: zero_less_power_int)
  from binary_exponent_bounds [OF pos]
  have b: "2 powi (binary_exponent x) \<le> x" "x < 2 powi (binary_exponent x + 1)" by simp_all
  have big: "1024 \<le> binary_exponent x"
  proof (rule ccontr)
    assume "\<not> 1024 \<le> binary_exponent x"
    then have "binary_exponent x + 1 \<le> 1024" by simp
    then have "(2::real) powi (binary_exponent x + 1) \<le> 2 powi 1024"
      by (rule power_int_increasing) simp
    with b(2) assms show False by simp
  qed
  then have e: "e = binary_exponent x" by (simp add: e_def ax)
  have ue: "u * 2 ^ 52 = 2 powi e"
  proof -
    have "u = 2 powi e / 2 powi 52" unfolding u_def by (rule power_int_diff) simp
    then show ?thesis by simp
  qed
  from b(1) e have "2 powi e \<le> x" by (simp only:)
  with ue have "u * 2 ^ 52 \<le> x" by (simp only:)
  with u0 have "2 ^ 52 \<le> x / u" by (simp only: pos_le_divide_eq mult.commute)
  then have "round_half_even (2 ^ 52) \<le> round_half_even (x / u)" by (rule round_half_even_mono)
  moreover have "round_half_even (2 ^ 52) = 2 ^ 52"
    using round_half_even_of_int [of "2 ^ 52"] by simp
  ultimately have "(2::int) ^ 52 \<le> round_half_even (x / u)" by simp
  then have "real_of_int (2 ^ 52) \<le> of_int (round_half_even (x / u))" by (simp only: of_int_le_iff)
  then have "2 ^ 52 * u \<le> y" unfolding y_def using u0 by (simp add: mult_right_mono)
  then have "2 powi e \<le> y" using ue by (simp add: mult.commute)
  moreover from big e have "(2::real) powi 1024 \<le> 2 powi e" by (intro power_int_increasing) simp_all
  ultimately have "2 ^ 1024 \<le> y" by simp
  with pos show ?thesis
    unfolding round_double_def Let_def e_def [symmetric] u_def [symmetric] y_def [symmetric]
    by simp
qed

lemma int_abs_bound:
  fixes n :: int and a :: real
  assumes "\<bar>real_of_int n - a\<bar> \<le> 1 / 2" and "\<bar>a\<bar> < of_int k"
  shows "\<bar>n\<bar> \<le> k"
proof -
  from assms have "\<bar>real_of_int n\<bar> < of_int k + 1 / 2" by linarith
  then have "real_of_int \<bar>n\<bar> < real_of_int (k + 1)" by simp
  then have "\<bar>n\<bar> < k + 1" by (simp only: of_int_less_iff)
  then show ?thesis by simp
qed

lemma int_abs_lower:
  fixes n :: int and a :: real
  assumes "\<bar>real_of_int n - a\<bar> \<le> 1 / 2" and "of_int k \<le> \<bar>a\<bar>"
  shows "k \<le> \<bar>n\<bar>"
proof -
  from assms have "of_int k - 1 / 2 \<le> \<bar>real_of_int n\<bar>" by linarith
  then have "real_of_int (k - 1) < real_of_int \<bar>n\<bar>" by simp
  then have "k - 1 < \<bar>n\<bar>" by (simp only: of_int_less_iff)
  then show ?thesis by simp
qed

lemma round_half_even_near: "\<bar>real_of_int (round_half_even x) - x\<bar> \<le> 1 / 2"
  using round_half_even_lower [of x] round_half_even_upper [of x] by linarith

lemma round_double_certificate:
  assumes "2 powi e \<le> \<bar>x\<bar>" and "\<bar>x\<bar> < 2 powi (e + 1)"
    and "- 1022 \<le> e" and "e \<le> 1022"
    and "round_half_even (x / 2 powi (e - 52)) = m"
  shows "round_double x = Num (of_int m * 2 powi (e - 52))"
proof -
  have p: "(0::real) < 2 powi e" by (simp add: zero_less_power_int)
  with assms(1) have "0 < \<bar>x\<bar>" by linarith
  then have x0: "x \<noteq> 0" by simp
  from assms(1,2) have be: "binary_exponent \<bar>x\<bar> = e" by (rule binary_exponent_unique)
  with assms(3) have e: "max (binary_exponent \<bar>x\<bar>) (- 1022) = e" by simp
  define u :: real where "u = 2 powi (e - 52)"
  have u0: "0 < u" unfolding u_def by (simp add: zero_less_power_int)
  from assms(5) have r: "round_half_even (x / u) = m" by (simp only: u_def)
  have near: "\<bar>real_of_int m - x / u\<bar> \<le> 1 / 2"
    using round_half_even_near [of "x / u"] by (simp only: r)
  have ue: "u * 2 ^ 53 = 2 powi (e + 1)"
  proof -
    have "e + 1 = (e - 52) + 53" by simp
    then have "(2::real) powi (e + 1) = 2 powi ((e - 52) + 53)" by (simp only:)
    also have "\<dots> = 2 powi (e - 52) * 2 powi 53" by (rule power_int_add) simp
    finally show ?thesis by (simp add: u_def)
  qed
  from assms(2) have "\<bar>x\<bar> < u * 2 ^ 53" by (simp only: ue)
  with u0 have "\<bar>x / u\<bar> < real_of_int (2 ^ 53)" by (simp add: field_simps)
  with near have "\<bar>m\<bar> \<le> 2 ^ 53" by (rule int_abs_bound)
  then have "real_of_int \<bar>m\<bar> \<le> real_of_int (2 ^ 53)" by (simp only: of_int_le_iff)
  then have "real_of_int \<bar>m\<bar> * u \<le> real_of_int (2 ^ 53) * u"
    using u0 by (intro mult_right_mono) simp_all
  moreover have "real_of_int (2 ^ 53) * u = 2 powi (e + 1)"
    using ue by (simp add: mult.commute)
  moreover have "\<bar>real_of_int m * u\<bar> = real_of_int \<bar>m\<bar> * u"
    using u0 by (simp add: abs_mult)
  ultimately have "\<bar>real_of_int m * u\<bar> \<le> 2 powi (e + 1)" by linarith
  also from assms(4) have "(2::real) powi (e + 1) \<le> 2 powi 1023"
    by (intro power_int_increasing) simp_all
  also have "(2::real) powi 1023 < 2 ^ 1024" by simp
  finally have "\<bar>real_of_int m * u\<bar> < 2 ^ 1024" .
  then have "\<not> 2 ^ 1024 \<le> real_of_int m * u" "\<not> real_of_int m * u \<le> - (2 ^ 1024)" by linarith+
  with x0 show ?thesis
    unfolding round_double_def Let_def e u_def [symmetric] r by simp
qed

lemma round_double_grid:
  assumes "y = of_int k * 2 powi (e - 52)" and "e = max (binary_exponent \<bar>y\<bar>) (- 1022)"
    and "\<bar>y\<bar> < 2 ^ 1024" and "y \<noteq> 0"
  shows "round_double y = Num y"
proof -
  have u0: "(2::real) powi (e - 52) \<noteq> 0" by simp
  from assms(1) have "y / 2 powi (e - 52) = of_int k" using u0 by simp
  then have "round_half_even (y / 2 powi (e - 52)) = k" by (simp only: round_half_even_of_int)
  moreover from assms(3) have "\<not> 2 ^ 1024 \<le> y" "\<not> y \<le> - (2 ^ 1024)" by linarith+
  ultimately show ?thesis
    unfolding round_double_def Let_def assms(2) [symmetric] using assms(1,4) by simp
qed


lemma round_double_NumD:
  assumes "round_double x = Num y" and "x \<noteq> 0"
  shows "y = of_int (round_half_even (x / 2 powi (max (binary_exponent \<bar>x\<bar>) (- 1022) - 52)))
               * 2 powi (max (binary_exponent \<bar>x\<bar>) (- 1022) - 52)"
    and "\<bar>y\<bar> < 2 ^ 1024"
proof -
  define y' where "y' = of_int (round_half_even (x / 2 powi (max (binary_exponent \<bar>x\<bar>) (- 1022) - 52)))
               * (2::real) powi (max (binary_exponent \<bar>x\<bar>) (- 1022) - 52)"
  from assms(2) have r: "round_double x =
      (if 2 ^ 1024 \<le> y' then PlusInf else if y' \<le> - (2 ^ 1024) then MinusInf else Num y')"
    unfolding round_double_def Let_def y'_def by (simp only: if_False)
  have a: "\<not> 2 ^ 1024 \<le> y'"
  proof
    assume "2 ^ 1024 \<le> y'"
    with r have "round_double x = PlusInf" by (simp only: if_True)
    with assms(1) show False by simp
  qed
  have b: "\<not> y' \<le> - (2 ^ 1024)"
  proof
    assume "y' \<le> - (2 ^ 1024)"
    with r a have "round_double x = MinusInf" by (simp only: if_True if_False)
    with assms(1) show False by simp
  qed
  from r a b have "round_double x = Num y'" by (simp only: if_False)
  with assms(1) have "y = y'" by simp
  then show "y = of_int (round_half_even (x / 2 powi (max (binary_exponent \<bar>x\<bar>) (- 1022) - 52)))
               * 2 powi (max (binary_exponent \<bar>x\<bar>) (- 1022) - 52)" by (simp only: y'_def)
  from a b \<open>y = y'\<close> show "\<bar>y\<bar> < 2 ^ 1024" by linarith
qed

lemma round_double_idem:
  assumes "round_double x = Num y"
  shows "round_double y = Num y"
proof (cases "y = 0")
  case True
  then show ?thesis by (simp add: round_double_def)
next
  case y0: False
  with assms have x0: "x \<noteq> 0" by (auto simp: round_double_def)
  define e where "e = max (binary_exponent \<bar>x\<bar>) (- 1022)"
  define u :: real where "u = 2 powi (e - 52)"
  define n where "n = round_half_even (x / u)"
  have u0: "0 < u" unfolding u_def by (simp add: zero_less_power_int)
  from round_double_NumD [OF assms x0] have y: "y = of_int n * u" and fin: "\<bar>y\<bar> < 2 ^ 1024"
    unfolding e_def [symmetric] u_def [symmetric] n_def [symmetric] .
  have near: "\<bar>real_of_int n - x / u\<bar> \<le> 1 / 2" unfolding n_def by (rule round_half_even_near)
  have ue: "u * 2 ^ 52 = 2 powi e"
  proof -
    have "u = 2 powi e / 2 powi 52" unfolding u_def by (rule power_int_diff) simp
    then show ?thesis by simp
  qed
  have ue1: "u * 2 ^ 53 = 2 powi (e + 1)"
  proof -
    have "(2::real) powi (e + 1) = 2 powi e * 2" by (rule power_int_add_1) simp
    with ue show ?thesis by simp
  qed
  have xpos: "0 < \<bar>x\<bar>" using x0 by simp
  have ay: "\<bar>y\<bar> = real_of_int \<bar>n\<bar> * u" using u0 by (simp add: y abs_mult)
  have upper: "\<bar>x\<bar> < 2 powi (e + 1)"
  proof -
    from binary_exponent_bounds(2) [OF xpos] have "\<bar>x\<bar> < 2 powi (binary_exponent \<bar>x\<bar> + 1)" .
    also have "\<dots> \<le> 2 powi (e + 1)" by (intro power_int_increasing) (simp_all add: e_def)
    finally show ?thesis .
  qed
  then have "\<bar>x\<bar> < u * 2 ^ 53" by (simp only: ue1)
  with u0 have "\<bar>x / u\<bar> < real_of_int (2 ^ 53)" by (simp add: field_simps)
  with near have n_le: "\<bar>n\<bar> \<le> 2 ^ 53" by (rule int_abs_bound)
  show ?thesis
  proof (cases "- 1022 \<le> binary_exponent \<bar>x\<bar>")
    case True
    then have e: "e = binary_exponent \<bar>x\<bar>" by (simp add: e_def)
    with binary_exponent_bounds(1) [OF xpos] have "2 powi e \<le> \<bar>x\<bar>" by simp
    then have "u * 2 ^ 52 \<le> \<bar>x\<bar>" by (simp only: ue)
    with u0 have "real_of_int (2 ^ 52) \<le> \<bar>x / u\<bar>" by (simp add: field_simps)
    with near have n_ge: "2 ^ 52 \<le> \<bar>n\<bar>" by (rule int_abs_lower)
    from True e have e_ge: "- 1022 \<le> e" by simp
    show ?thesis
    proof (cases "\<bar>n\<bar> = 2 ^ 53")
      case T: True
      then have "\<bar>y\<bar> = 2 ^ 53 * u" by (simp add: ay)
      then have ye: "\<bar>y\<bar> = 2 powi (e + 1)" using ue1 by (simp add: mult.commute)
      have "(2::real) powi (e + 1) < 2 powi (e + 1 + 1)" by (intro power_int_strict_increasing) simp_all
      with ye have "binary_exponent \<bar>y\<bar> = e + 1" by (intro binary_exponent_unique) simp_all
      with e_ge have e': "e + 1 = max (binary_exponent \<bar>y\<bar>) (- 1022)" by simp
      from T have "n = 2 * 2 ^ 52 \<or> n = 2 * (- (2 ^ 52))" by (cases "0 \<le> n") simp_all
      then obtain j where j: "n = 2 * j" by blast
      have "(2::real) powi (e + 1 - 52) = 2 powi ((e - 52) + 1)" by (simp add: algebra_simps)
      also have "\<dots> = 2 powi (e - 52) * 2" by (rule power_int_add_1) simp
      finally have "y = of_int j * 2 powi (e + 1 - 52)" by (simp add: y j u_def)
      from this e' fin y0 show ?thesis by (rule round_double_grid)
    next
      case F: False
      with n_le have "\<bar>n\<bar> < 2 ^ 53" by simp
      then have "real_of_int \<bar>n\<bar> < real_of_int (2 ^ 53)" by (simp only: of_int_less_iff)
      then have "real_of_int \<bar>n\<bar> * u < 2 ^ 53 * u" using u0 by simp
      then have yu: "\<bar>y\<bar> < 2 powi (e + 1)" using ue1 by (simp add: ay mult.commute)
      from n_ge have "real_of_int (2 ^ 52) \<le> real_of_int \<bar>n\<bar>" by (simp only: of_int_le_iff)
      then have "2 ^ 52 * u \<le> real_of_int \<bar>n\<bar> * u" using u0 by simp
      then have yl: "2 powi e \<le> \<bar>y\<bar>" using ue by (simp add: ay mult.commute)
      from yl yu have "binary_exponent \<bar>y\<bar> = e" by (rule binary_exponent_unique)
      with e_ge have e': "e = max (binary_exponent \<bar>y\<bar>) (- 1022)" by simp
      from y [unfolded u_def] e' fin y0 show ?thesis by (rule round_double_grid)
    qed
  next
    case False
    then have e: "e = - 1022" by (simp add: e_def)
    from False have "binary_exponent \<bar>x\<bar> + 1 \<le> - 1022" by simp
    then have "(2::real) powi (binary_exponent \<bar>x\<bar> + 1) \<le> 2 powi (- 1022)"
      by (rule power_int_increasing) simp
    with binary_exponent_bounds(2) [OF xpos] have "\<bar>x\<bar> < 2 powi e" by (simp add: e)
    then have "\<bar>x\<bar> < u * 2 ^ 52" by (simp only: ue)
    with u0 have "\<bar>x / u\<bar> < real_of_int (2 ^ 52)" by (simp add: field_simps)
    with near have "\<bar>n\<bar> \<le> 2 ^ 52" by (rule int_abs_bound)
    then have "real_of_int \<bar>n\<bar> \<le> real_of_int (2 ^ 52)" by (simp only: of_int_le_iff)
    then have "real_of_int \<bar>n\<bar> * u \<le> 2 ^ 52 * u" using u0 by simp
    then have yle: "\<bar>y\<bar> \<le> 2 powi e" using ue by (simp add: ay mult.commute)
    have ypos: "0 < \<bar>y\<bar>" using y0 by simp
    have "binary_exponent \<bar>y\<bar> \<le> e"
    proof (rule ccontr)
      assume "\<not> binary_exponent \<bar>y\<bar> \<le> e"
      then have "e + 1 \<le> binary_exponent \<bar>y\<bar>" by simp
      then have "(2::real) powi (e + 1) \<le> 2 powi (binary_exponent \<bar>y\<bar>)"
        by (rule power_int_increasing) simp
      moreover have "(2::real) powi e < 2 powi (e + 1)" by (intro power_int_strict_increasing) simp_all
      ultimately show False using binary_exponent_bounds(1) [OF ypos] yle by linarith
    qed
    with e have e': "e = max (binary_exponent \<bar>y\<bar>) (- 1022)" by simp
    from y [unfolded u_def] e' fin y0 show ?thesis by (rule round_double_grid)
  qed
qed

subsection \<open>The emission model\<close>

lemma factor_lookup: "dict_get EMISSION_FACTORS m 0.096 = factor_spec m"
  unfolding dict_get_def EMISSION_FACTORS_def factor_spec_def by simp

text \<open>
  C10. The result of \<^verbatim>\<open>calculate_co2\<close> depends only on the transport mode, the distance
  and the weight: two calls that agree on these three and differ in the origin and
  destination countries and cities return the same CO2.
\<close>

theorem calculate_co2_ignores_locations:
  "calculate_co2 country1 city1 country2 city2 m distance_km weight_tons
     = calculate_co2 country1' city1' country2' city2' m distance_km weight_tons"
  unfolding calculate_co2_def by (rule refl)

subsection \<open>The loop of the optimizer\<close>

lemma dom_EMISSION_FACTORS:
  "dom EMISSION_FACTORS = {''Truck'', ''Train'', ''Ship'', ''Plane''}"
  unfolding EMISSION_FACTORS_def by auto

lemma dict_index_known:
  "m \<in> dom EMISSION_FACTORS \<Longrightarrow> dict_index EMISSION_FACTORS m = Inr (factor_spec m)"
  unfolding dict_index_def dom_EMISSION_FACTORS
  by (auto simp: EMISSION_FACTORS_def factor_spec_def)

lemma known_nonempty: "m \<in> dom EMISSION_FACTORS \<Longrightarrow> m \<noteq> []"
  unfolding dom_EMISSION_FACTORS by auto

lemma route_loop_step:
  assumes "known_modes c"
  shows "route_loop d w (c # rest) s =
           (if less_float (total_spec d w (segments_of c)) (min_co2 s)
            then route_loop d w rest (chosen d w c)
            else route_loop d w rest s)"
proof -
  obtain mode1 ratio1 mode2 ratio2 where c: "c = (mode1, ratio1, mode2, ratio2)"
    by (cases c) auto
  show ?thesis
  proof (cases mode2)
    case None
    with assms c show ?thesis
      by (simp add: known_modes_def chosen_def dict_index_known Let_def)
  next
    case (Some m2)
    with assms c have "m2 \<in> dom EMISSION_FACTORS" "m2 \<noteq> []" "mode1 \<in> dom EMISSION_FACTORS"
      by (auto simp: known_modes_def known_nonempty)
    with Some c show ?thesis
      by (simp add: chosen_def dict_index_known Let_def)
  qed
qed

lemma less_float_trans:
  "\<not> less_float x m \<Longrightarrow> less_float y m \<Longrightarrow> y < x"
  by (cases m) auto

lemma route_loop_first_minimum:
  assumes "\<forall>c \<in> set cs. known_modes c"
  shows "(route_loop d w cs s = Inr s \<and>
            (\<forall>c \<in> set cs. \<not> less_float (total_spec d w (segments_of c)) (min_co2 s)))
         \<or> (\<exists>pre c post. cs = pre @ c # post \<and> route_loop d w cs s = Inr (chosen d w c)
              \<and> less_float (total_spec d w (segments_of c)) (min_co2 s)
              \<and> (\<forall>p \<in> set pre. total_spec d w (segments_of c) < total_spec d w (segments_of p))
              \<and> (\<forall>p \<in> set post. total_spec d w (segments_of c) \<le> total_spec d w (segments_of p)))"
  using assms
proof (induction cs arbitrary: s)
  case Nil
  then show ?case by simp
next
  case (Cons c cs)
  let ?t = "\<lambda>x. total_spec d w (segments_of x)"
  from Cons.prems have kc: "known_modes c" and kcs: "\<forall>c \<in> set cs. known_modes c" by auto
  show ?case
  proof (cases "less_float (?t c) (min_co2 s)")
    case True
    then have step: "route_loop d w (c # cs) s = route_loop d w cs (chosen d w c)"
      using route_loop_step [OF kc] by simp
    have m: "min_co2 (chosen d w c) = Fin (?t c)"
      by (cases c) (simp add: chosen_def)
    from Cons.IH [OF kcs, of "chosen d w c"] show ?thesis
    proof
      assume a: "route_loop d w cs (chosen d w c) = Inr (chosen d w c) \<and>
        (\<forall>x \<in> set cs. \<not> less_float (?t x) (min_co2 (chosen d w c)))"
      then have "\<forall>x \<in> set cs. ?t c \<le> ?t x" using m by (auto simp: not_less)
      with a step True have "c # cs = [] @ c # cs \<and> route_loop d w (c # cs) s = Inr (chosen d w c)
              \<and> less_float (?t c) (min_co2 s)
              \<and> (\<forall>p \<in> set []. ?t c < ?t p)
              \<and> (\<forall>p \<in> set cs. ?t c \<le> ?t p)" by simp
      then show ?thesis by blast
    next
      assume "\<exists>pre x post. cs = pre @ x # post \<and> route_loop d w cs (chosen d w c) = Inr (chosen d w x)
              \<and> less_float (?t x) (min_co2 (chosen d w c))
              \<and> (\<forall>p \<in> set pre. ?t x < ?t p)
              \<and> (\<forall>p \<in> set post. ?t x \<le> ?t p)"
      then obtain pre x post where b: "cs = pre @ x # post"
        "route_loop d w cs (chosen d w c) = Inr (chosen d w x)"
        "less_float (?t x) (min_co2 (chosen d w c))"
        "\<forall>p \<in> set pre. ?t x < ?t p" "\<forall>p \<in> set post. ?t x \<le> ?t p" by blast
      from b(3) m have lt: "?t x < ?t c" by simp
      with True have "less_float (?t x) (min_co2 s)" by (cases "min_co2 s") auto
      with b lt step have "c # cs = (c # pre) @ x # post \<and> route_loop d w (c # cs) s = Inr (chosen d w x)
              \<and> less_float (?t x) (min_co2 s)
              \<and> (\<forall>p \<in> set (c # pre). ?t x < ?t p)
              \<and> (\<forall>p \<in> set post. ?t x \<le> ?t p)" by simp
      then show ?thesis by blast
    qed
  next
    case False
    then have step: "route_loop d w (c # cs) s = route_loop d w cs s"
      using route_loop_step [OF kc] by simp
    from Cons.IH [OF kcs, of s] show ?thesis
    proof
      assume "route_loop d w cs s = Inr s \<and> (\<forall>x \<in> set cs. \<not> less_float (?t x) (min_co2 s))"
      with step False show ?thesis by simp
    next
      assume "\<exists>pre x post. cs = pre @ x # post \<and> route_loop d w cs s = Inr (chosen d w x)
              \<and> less_float (?t x) (min_co2 s)
              \<and> (\<forall>p \<in> set pre. ?t x < ?t p)
              \<and> (\<forall>p \<in> set post. ?t x \<le> ?t p)"
      then obtain pre x post where b: "cs = pre @ x # post"
        "route_loop d w cs s = Inr (chosen d w x)"
        "less_float (?t x) (min_co2 s)"
        "\<forall>p \<in> set pre. ?t x < ?t p" "\<forall>p \<in> set post. ?t x \<le> ?t p" by blast
      from False b(3) have "?t x < ?t c" by (rule less_float_trans)
      with b step have "c # cs = (c # pre) @ x # post \<and> route_loop d w (c # cs) s = Inr (chosen d w x)
              \<and> less_float (?t x) (min_co2 s)
              \<and> (\<forall>p \<in> set (c # pre). ?t x < ?t p)
              \<and> (\<forall>p \<in> set post. ?t x \<le> ?t p)" by simp
      then show ?thesis by blast
    qed
  qed
qed

subsection \<open>The candidate table\<close>

lemma total_spec_coefficient: "total_spec d w segs = d * w * coefficient segs"
  by (induction segs) (auto simp: algebra_simps)

lemma factor_spec_values:
  "factor_spec ''Truck'' = 96 / 1000" "factor_spec ''Train'' = 28 / 1000"
  "factor_spec ''Ship'' = 16 / 1000" "factor_spec ''Plane'' = 602 / 1000"
  by (simp_all add: factor_spec_def)

lemma coefficient_candidates:
  "map coefficient (candidates_spec True Long) = [172 / 10000, 320 / 10000, 3090 / 10000]"
  "map coefficient (candidates_spec True Medium) = [196 / 10000, 2984 / 10000, 2504 / 10000]"
  "map coefficient (candidates_spec True Short) = [416 / 10000, 560 / 10000, 2478 / 10000]"
  "map coefficient (candidates_spec False Short) = [348 / 10000, 960 / 10000, 280 / 10000]"
  "map coefficient (candidates_spec False Medium) = [484 / 10000, 688 / 10000, 2478 / 10000]"
  "map coefficient (candidates_spec False Long) = [484 / 10000, 688 / 10000, 2478 / 10000]"
  by (simp_all add: factor_spec_values)

lemma coefficient_nonneg:
  "\<forall>s \<in> set (candidates_spec ic b). 0 \<le> coefficient s"
proof -
  have "\<forall>x \<in> set (map coefficient (candidates_spec ic b)). 0 \<le> x"
    by (cases ic; cases b) (simp_all only: coefficient_candidates, simp_all)
  then show ?thesis by simp
qed

lemma length_candidates: "length (candidates_spec ic b) = 3"
  by (cases ic; cases b) simp_all

lemma candidate_at:
  assumes "k < 3" and "map coefficient (candidates_spec ic b) ! k \<le> f"
  shows "\<exists>s \<in> set (candidates_spec ic b). coefficient s \<le> f"
proof -
  from assms(1) have k: "k < length (candidates_spec ic b)" by (simp add: length_candidates)
  then have "candidates_spec ic b ! k \<in> set (candidates_spec ic b)" by (rule nth_mem)
  moreover from assms(2) k have "coefficient (candidates_spec ic b ! k) \<le> f" by simp
  ultimately show ?thesis by blast
qed

lemma coefficient_below_factor:
  assumes "m = ''Truck'' \<or> m = ''Plane'' \<or>
           (m = ''Train'' \<and> (ic \<and> b \<noteq> Short \<or> \<not> ic \<and> b = Short))"
  shows "\<exists>s \<in> set (candidates_spec ic b). coefficient s \<le> factor_spec m"
proof -
  from assms consider "m = ''Truck'' \<or> m = ''Plane''"
    | "m = ''Train''" "ic" "b \<noteq> Short" | "m = ''Train''" "\<not> ic" "b = Short" by blast
  then show ?thesis
  proof cases
    case 1
    then have "map coefficient (candidates_spec ic b) ! 0 \<le> factor_spec m"
      by (cases ic; cases b) (auto simp only: coefficient_candidates factor_spec_values, simp_all)
    then show ?thesis by (rule candidate_at [rotated]) simp
  next
    case 2
    then have "map coefficient (candidates_spec ic b) ! 0 \<le> factor_spec m"
      by (cases b) (simp_all only: coefficient_candidates factor_spec_values, simp_all)
    then show ?thesis by (rule candidate_at [rotated]) simp
  next
    case 3
    then have "map coefficient (candidates_spec ic b) ! 2 \<le> factor_spec m"
      by (simp only: coefficient_candidates factor_spec_values, simp)
    then show ?thesis by (rule candidate_at [rotated]) simp
  qed
qed

subsection \<open>The optimizer\<close>

lemma combinations_known: "\<forall>c \<in> set (combinations_for country1 country2 d). known_modes c"
  unfolding combinations_for_def Let_def known_modes_def dom_EMISSION_FACTORS by simp

lemma combinations_nonempty: "combinations_for country1 country2 d \<noteq> []"
  unfolding combinations_for_def Let_def by simp

lemma combinations_refine_spec:
  "map segments_of (combinations_for country1 country2 d)
     = candidates_spec (country1 \<noteq> country2) (band_spec d)"
  unfolding combinations_for_def Let_def band_spec_def by simp

lemma combinations_ratios:
  "\<forall>c \<in> set (combinations_for country1 country2 d). sum_list (map snd (segments_of c)) = 1"
  unfolding combinations_for_def Let_def by simp

lemma optimize_route_result:
  "\<exists>pre c post.
     combinations_for country1 country2 d = pre @ c # post
     \<and> optimize_route country1 city1 country2 city2 d w
         = Inr ((chosen d w c)\<lparr>min_co2 := Fin (py_round2 (total_spec d w (segments_of c)))\<rparr>)
     \<and> (\<forall>p \<in> set pre. total_spec d w (segments_of c) < total_spec d w (segments_of p))
     \<and> (\<forall>p \<in> set post. total_spec d w (segments_of c) \<le> total_spec d w (segments_of p))"
proof -
  let ?cs = "combinations_for country1 country2 d"
  let ?init = "\<lparr>best_option = None, min_co2 = PosInf,
                 best_breakdown = None, best_distances = None\<rparr>"
  let ?t = "\<lambda>x. total_spec d w (segments_of x)"
  obtain c0 rest where cs: "?cs = c0 # rest"
    using combinations_nonempty [of country1 country2 d] by (cases ?cs) auto
  have "less_float (?t c0) (min_co2 ?init)" by simp
  with cs have "\<not> (\<forall>c \<in> set ?cs. \<not> less_float (?t c) (min_co2 ?init))"
    by (metis list.set_intros(1))
  moreover have "\<forall>c \<in> set ?cs. known_modes c" by (rule combinations_known)
  note route_loop_first_minimum [OF this, of d w ?init]
  ultimately obtain pre c post where r: "?cs = pre @ c # post"
    "route_loop d w ?cs ?init = Inr (chosen d w c)"
    "\<forall>p \<in> set pre. ?t c < ?t p" "\<forall>p \<in> set post. ?t c \<le> ?t p"
    by blast
  have m: "min_co2 (chosen d w c) = Fin (?t c)"
    by (cases c) (simp add: chosen_def)
  from r(2) m have "optimize_route country1 city1 country2 city2 d w
         = Inr ((chosen d w c)\<lparr>min_co2 := Fin (py_round2 (?t c))\<rparr>)"
    unfolding optimize_route_def Let_def by simp
  with r show ?thesis by blast
qed

lemma py_round2_zero: "py_round2 0 = 0"
  unfolding py_round2_def round_half_even_def Let_def by simp

lemma optimize_route_minimum:
  "\<exists>c. c \<in> set (combinations_for country1 country2 d)
     \<and> optimize_route country1 city1 country2 city2 d w
         = Inr ((chosen d w c)\<lparr>min_co2 := Fin (py_round2 (total_spec d w (segments_of c)))\<rparr>)
     \<and> (\<forall>p \<in> set (combinations_for country1 country2 d).
           total_spec d w (segments_of c) \<le> total_spec d w (segments_of p))"
proof -
  from optimize_route_result [of country1 country2 d city1 city2 w]
  obtain pre c post where r: "combinations_for country1 country2 d = pre @ c # post"
    "optimize_route country1 city1 country2 city2 d w
       = Inr ((chosen d w c)\<lparr>min_co2 := Fin (py_round2 (total_spec d w (segments_of c)))\<rparr>)"
    "\<forall>p \<in> set pre. total_spec d w (segments_of c) < total_spec d w (segments_of p)"
    "\<forall>p \<in> set post. total_spec d w (segments_of c) \<le> total_spec d w (segments_of p)"
    by blast
  from r(1) have "c \<in> set (combinations_for country1 country2 d)" by simp
  moreover from r(1,3,4) have "\<forall>p \<in> set (combinations_for country1 country2 d).
           total_spec d w (segments_of c) \<le> total_spec d w (segments_of p)"
    by (auto simp: less_imp_le)
  ultimately show ?thesis using r(2) by blast
qed

lemma band_spec_Short: "band_spec d = Short \<longleftrightarrow> d < 1000"
  unfolding band_spec_def by simp

lemma candidate_below_single_mode:
  assumes "0 \<le> d * w"
    and "m = ''Truck'' \<or> m = ''Plane'' \<or>
         (m = ''Train'' \<and> (country1 \<noteq> country2 \<and> 1000 \<le> d \<or> country1 = country2 \<and> d < 1000))"
  shows "\<exists>p \<in> set (combinations_for country1 country2 d).
           total_spec d w (segments_of p) \<le> d * w * factor_spec m"
proof -
  let ?ic = "country1 \<noteq> country2" and ?b = "band_spec d"
  from assms(2) have "m = ''Truck'' \<or> m = ''Plane'' \<or>
           (m = ''Train'' \<and> (?ic \<and> ?b \<noteq> Short \<or> \<not> ?ic \<and> ?b = Short))"
    by (auto simp: band_spec_Short)
  from coefficient_below_factor [OF this]
  obtain s where s: "s \<in> set (candidates_spec ?ic ?b)" "coefficient s \<le> factor_spec m"
    by blast
  from s(1) have "s \<in> set (map segments_of (combinations_for country1 country2 d))"
    by (simp only: combinations_refine_spec)
  then obtain p where p: "p \<in> set (combinations_for country1 country2 d)" "s = segments_of p"
    by auto
  from s(2) assms(1) have "d * w * coefficient s \<le> d * w * factor_spec m"
    by (rule mult_left_mono)
  with p show ?thesis by (auto simp: total_spec_coefficient)
qed

lemma calculate_co2_eq: 
  "calculate_co2 country1 city1 country2 city2 m d w = py_round2 (d * w * factor_spec m)"
  unfolding calculate_co2_def Let_def by (simp only: factor_lookup)

text \<open>
  C2 as stated fails: for 10000 km and 1 ton from the USA to China the optimizer returns
  172 kg (Ship 90% with Train 10%), while Ship, a mode of that candidate list, gives 160 kg
  on its own.
\<close>

theorem optimize_route_vs_single_mode_counterexample:
  "optimize_route ''USA'' ''New York'' ''China'' ''Shanghai'' 10000 1
     = Inr \<lparr>best_option = Some (''Ship'', 0.9, Some ''Train'', 0.1),
            min_co2 = Fin 172,
            best_breakdown = Some (144, 28),
            best_distances = Some (9000, 1000)\<rparr>
   \<and> ''Ship'' \<in> set (map fst (concat (candidates_spec (''USA'' \<noteq> ''China'') (band_spec 10000))))
   \<and> calculate_co2 ''USA'' ''New York'' ''China'' ''Shanghai'' ''Ship'' 10000 1 = 160
   \<and> \<not> ((172::real) \<le> 160)"
  unfolding optimize_route_def combinations_for_def calculate_co2_def band_spec_def Let_def
  by (simp add: dict_index_def dict_get_def EMISSION_FACTORS_def py_round2_def
        round_half_even_def Let_def)

text \<open>
  C2, amended. For every distance \<open>\<ge> 0\<close> and weight \<open>> 0\<close>, the total returned by
  \<^verbatim>\<open>optimize_route\<close> is at most the single-mode result of \<^verbatim>\<open>calculate_co2\<close> for the
  same distance and weight with mode Truck or Plane, and with mode Train when the route
  is intercontinental of at least 1000 km or domestic below 1000 km. (No such bound
  holds for Ship: the table has no strategy that is Ship alone.)
\<close>

theorem optimize_route_vs_single_mode:
  assumes "0 \<le> distance_km" and "0 < weight_tons"
    and "m = ''Truck'' \<or> m = ''Plane'' \<or>
         (m = ''Train'' \<and> (country1 \<noteq> country2 \<and> 1000 \<le> distance_km
                          \<or> country1 = country2 \<and> distance_km < 1000))"
  shows "\<exists>r t. optimize_route country1 city1 country2 city2 distance_km weight_tons = Inr r
           \<and> min_co2 r = Fin t
           \<and> t \<le> calculate_co2 country1 city1 country2 city2 m distance_km weight_tons"
proof -
  let ?d = distance_km and ?w = weight_tons
  from assms(1,2) have x: "0 \<le> ?d * ?w" by simp
  from optimize_route_minimum [of country1 country2 ?d city1 city2 ?w]
  obtain c where c: "optimize_route country1 city1 country2 city2 ?d ?w
         = Inr ((chosen ?d ?w c)\<lparr>min_co2 := Fin (py_round2 (total_spec ?d ?w (segments_of c)))\<rparr>)"
     "\<forall>p \<in> set (combinations_for country1 country2 ?d).
           total_spec ?d ?w (segments_of c) \<le> total_spec ?d ?w (segments_of p)"
    by blast
  from candidate_below_single_mode [OF x assms(3)]
  obtain p where p: "p \<in> set (combinations_for country1 country2 ?d)"
    "total_spec ?d ?w (segments_of p) \<le> ?d * ?w * factor_spec m" by blast
  from c(2) p have "total_spec ?d ?w (segments_of c) \<le> ?d * ?w * factor_spec m" by force
  then have "py_round2 (total_spec ?d ?w (segments_of c))
      \<le> calculate_co2 country1 city1 country2 city2 m ?d ?w"
    unfolding calculate_co2_eq by (rule py_round2_mono)
  with c(1) show ?thesis by simp
qed

theorem optimize_route_vs_single_mode_witness:
  "(0::real) \<le> 10000 \<and> (0::real) < 1
   \<and> (''Train'' = ''Truck'' \<or> ''Train'' = ''Plane'' \<or>
        (''Train'' = ''Train'' \<and> (''USA'' \<noteq> ''China'' \<and> (1000::real) \<le> 10000
                                \<or> ''USA'' = ''China'' \<and> (10000::real) < 1000)))
   \<and> (\<exists>r t. optimize_route ''USA'' ''New York'' ''China'' ''Shanghai'' 10000 1 = Inr r
           \<and> min_co2 r = Fin t
           \<and> t \<le> calculate_co2 ''USA'' ''New York'' ''China'' ''Shanghai'' ''Train'' 10000 1)"
proof -
  have h1: "(0::real) \<le> 10000" and h2: "(0::real) < 1" by simp_all
  have h3: "''Train'' = ''Truck'' \<or> ''Train'' = ''Plane'' \<or>
        (''Train'' = ''Train'' \<and> (''USA'' \<noteq> ''China'' \<and> (1000::real) \<le> 10000
                                \<or> ''USA'' = ''China'' \<and> (10000::real) < 1000))" by simp
  from optimize_route_vs_single_mode
         [OF h1 h2 h3, where ?city1.0 = "''New York''" and ?city2.0 = "''Shanghai''"]
       h1 h2 h3
  show ?thesis by blast
qed

lemma candidate_total_sign:
  assumes "d * w \<le> 0" and "p \<in> set (combinations_for country1 country2 d)"
  shows "total_spec d w (segments_of p) \<le> 0"
proof -
  from assms(2) have "segments_of p \<in> set (map segments_of (combinations_for country1 country2 d))"
    by simp
  then have "segments_of p \<in> set (candidates_spec (country1 \<noteq> country2) (band_spec d))"
    by (simp only: combinations_refine_spec)
  with coefficient_nonneg have "0 \<le> coefficient (segments_of p)" by blast
  with assms(1) have "d * w * coefficient (segments_of p) \<le> 0"
    by (rule mult_nonpos_nonneg)
  then show ?thesis by (simp only: total_spec_coefficient)
qed

text \<open>
  C3 as stated fails: a weight of \<open>-1\<close> ton is not rejected. The call returns the
  Truck-only strategy with a total of \<open>-48\<close> kg.
\<close>

theorem optimize_route_no_validation_counterexample:
  "optimize_route ''France'' ''Paris'' ''France'' ''Paris'' 500 (- 1)
     = Inr \<lparr>best_option = Some (''Truck'', 1, None, 0),
            min_co2 = Fin (- 48),
            best_breakdown = Some (- 48, 0),
            best_distances = Some (500, 0)\<rparr>"
  unfolding optimize_route_def combinations_for_def Let_def
  by (simp add: dict_index_def EMISSION_FACTORS_def py_round2_def round_half_even_def Let_def)

text \<open>
  C3, amended. \<^verbatim>\<open>optimize_route\<close> validates nothing: if the weight is \<open>\<le> 0\<close> or the
  distance is \<open>< 0\<close>, the call is not rejected. It returns a strategy of its candidate
  list with a finite total, and that total is zero or negative whenever distance times
  weight is \<open>\<le> 0\<close>. (Positive weights are the responsibility of the caller: the form of
  the user interface only accepts weights from 0.1 ton.)
\<close>

theorem optimize_route_no_validation:
  assumes "weight_tons \<le> 0 \<or> distance_km < 0"
  shows "\<exists>r c t. optimize_route country1 city1 country2 city2 distance_km weight_tons = Inr r
           \<and> best_option r = Some c
           \<and> c \<in> set (combinations_for country1 country2 distance_km)
           \<and> min_co2 r = Fin t
           \<and> (distance_km * weight_tons \<le> 0 \<longrightarrow> t \<le> 0)"
proof -
  let ?d = distance_km and ?w = weight_tons
  from optimize_route_minimum [of country1 country2 ?d city1 city2 ?w]
  obtain c where c: "c \<in> set (combinations_for country1 country2 ?d)"
     "optimize_route country1 city1 country2 city2 ?d ?w
         = Inr ((chosen ?d ?w c)\<lparr>min_co2 := Fin (py_round2 (total_spec ?d ?w (segments_of c)))\<rparr>)"
    by blast
  let ?r = "(chosen ?d ?w c)\<lparr>min_co2 := Fin (py_round2 (total_spec ?d ?w (segments_of c)))\<rparr>"
  have b: "best_option ?r = Some c" by (cases c) (simp add: chosen_def)
  have m: "min_co2 ?r = Fin (py_round2 (total_spec ?d ?w (segments_of c)))" by simp
  have "?d * ?w \<le> 0 \<longrightarrow> py_round2 (total_spec ?d ?w (segments_of c)) \<le> 0"
  proof
    assume "?d * ?w \<le> 0"
    from this c(1) have "total_spec ?d ?w (segments_of c) \<le> 0"
      by (rule candidate_total_sign)
    from py_round2_mono [OF this] show "py_round2 (total_spec ?d ?w (segments_of c)) \<le> 0"
      by (simp add: py_round2_zero)
  qed
  with c b m show ?thesis by blast
qed

theorem optimize_route_no_validation_witness:
  "((0::real) \<le> 0 \<or> (12000::real) < 0)
   \<and> (\<exists>r c t. optimize_route ''USA'' ''New York'' ''China'' ''Shanghai'' 12000 0 = Inr r
           \<and> best_option r = Some c
           \<and> c \<in> set (combinations_for ''USA'' ''China'' 12000)
           \<and> min_co2 r = Fin t
           \<and> ((12000::real) * 0 \<le> 0 \<longrightarrow> t \<le> 0))"
proof -
  have h: "(0::real) \<le> 0 \<or> (12000::real) < 0" by simp
  from optimize_route_no_validation
         [OF h, where ?country1.0 = "''USA''" and ?country2.0 = "''China''"
            and ?city1.0 = "''New York''" and ?city2.0 = "''Shanghai''"] h
  show ?thesis by blast
qed

subsection \<open>Monotonicity of the emission model\<close>

lemma factor_spec_pos: "0 < factor_spec m"
  unfolding factor_spec_def by simp

text \<open>
  C8 as stated fails, because of the rounding: with Ship and 1 ton, 343.56 km and
  343.57 km both give 5.50 kg; with Ship and 343.56 km, 1 ton and 1.0005 ton both give
  5.50 kg.
\<close>

theorem calculate_co2_strict_counterexample:
  "(343.56::real) < 343.57
   \<and> \<not> (calculate_co2 ''United Kingdom'' ''London'' ''France'' ''Paris'' ''Ship'' 343.56 1
          < calculate_co2 ''United Kingdom'' ''London'' ''France'' ''Paris'' ''Ship'' 343.57 1)
   \<and> (1::real) < 1.0005
   \<and> \<not> (calculate_co2 ''United Kingdom'' ''London'' ''France'' ''Paris'' ''Ship'' 343.56 1
          < calculate_co2 ''United Kingdom'' ''London'' ''France'' ''Paris'' ''Ship'' 343.56 1.0005)"
  unfolding calculate_co2_def Let_def
  by (simp add: dict_get_def EMISSION_FACTORS_def py_round2_def round_half_even_def Let_def)

lemma py_round2_strict:
  assumes "x + 1 / 100 < y"
  shows "py_round2 x < py_round2 y"
proof -
  have "\<bar>py_round2 x - x\<bar> \<le> 1 / 200" "\<bar>py_round2 y - y\<bar> \<le> 1 / 200"
    by (rule py_round2_near)+
  with assms show ?thesis by linarith
qed

text \<open>
  C8, amended. For a fixed mode and a weight \<open>\<ge> 0\<close>, \<^verbatim>\<open>calculate_co2\<close> is
  non-decreasing in the distance; for a fixed mode and a distance \<open>\<ge> 0\<close>, it is
  non-decreasing in the weight; and it is strictly greater whenever the unrounded
  products \<open>distance \<times> weight \<times> factor\<close> differ by more than 0.01 kg.
\<close>

theorem calculate_co2_monotone:
  "(0 \<le> weight_tons \<and> d1 \<le> d2 \<longrightarrow>
      calculate_co2 country1 city1 country2 city2 m d1 weight_tons
        \<le> calculate_co2 country1 city1 country2 city2 m d2 weight_tons)
   \<and> (0 \<le> distance_km \<and> w1 \<le> w2 \<longrightarrow>
      calculate_co2 country1 city1 country2 city2 m distance_km w1
        \<le> calculate_co2 country1 city1 country2 city2 m distance_km w2)
   \<and> (d1 * w1 * factor_spec m + 1 / 100 < d2 * w2 * factor_spec m \<longrightarrow>
      calculate_co2 country1 city1 country2 city2 m d1 w1
        < calculate_co2 country1 city1 country2 city2 m d2 w2)"
proof (intro conjI impI)
  have f: "0 \<le> factor_spec m" using factor_spec_pos [of m] by simp
  {
    assume "0 \<le> weight_tons \<and> d1 \<le> d2"
    then have "d1 * weight_tons \<le> d2 * weight_tons" by (simp add: mult_right_mono)
    then have "d1 * weight_tons * factor_spec m \<le> d2 * weight_tons * factor_spec m"
      using f by (rule mult_right_mono)
    then show "calculate_co2 country1 city1 country2 city2 m d1 weight_tons
        \<le> calculate_co2 country1 city1 country2 city2 m d2 weight_tons"
      unfolding calculate_co2_eq by (rule py_round2_mono)
  }
  {
    assume "0 \<le> distance_km \<and> w1 \<le> w2"
    then have "distance_km * w1 \<le> distance_km * w2" by (simp add: mult_left_mono)
    then have "distance_km * w1 * factor_spec m \<le> distance_km * w2 * factor_spec m"
      using f by (rule mult_right_mono)
    then show "calculate_co2 country1 city1 country2 city2 m distance_km w1
        \<le> calculate_co2 country1 city1 country2 city2 m distance_km w2"
      unfolding calculate_co2_eq by (rule py_round2_mono)
  }
  {
    assume "d1 * w1 * factor_spec m + 1 / 100 < d2 * w2 * factor_spec m"
    then show "calculate_co2 country1 city1 country2 city2 m d1 w1
        < calculate_co2 country1 city1 country2 city2 m d2 w2"
      unfolding calculate_co2_eq by (rule py_round2_strict)
  }
qed

theorem calculate_co2_monotone_witness:
  "calculate_co2 ''United Kingdom'' ''London'' ''France'' ''Paris'' ''Truck'' 343.56 1
     \<le> calculate_co2 ''United Kingdom'' ''London'' ''France'' ''Paris'' ''Truck'' 343.57 1
   \<and> calculate_co2 ''United Kingdom'' ''London'' ''France'' ''Paris'' ''Truck'' 343.56 1
     \<le> calculate_co2 ''United Kingdom'' ''London'' ''France'' ''Paris'' ''Truck'' 343.56 2
   \<and> calculate_co2 ''United Kingdom'' ''London'' ''France'' ''Paris'' ''Truck'' 343.56 1
     < calculate_co2 ''United Kingdom'' ''London'' ''France'' ''Paris'' ''Truck'' 343.57 2"
  using calculate_co2_monotone
          [where ?d1.0 = "343.56" and ?d2.0 = "343.57" and ?w1.0 = 1 and ?w2.0 = 2
             and ?weight_tons = 1 and ?distance_km = "343.56" and ?m = "''Truck''"
             and ?country1.0 = "''United Kingdom''" and ?city1.0 = "''London''"
             and ?country2.0 = "''France''" and ?city2.0 = "''Paris''"]
  by (simp add: factor_spec_def)

subsection \<open>Carbon price conversion\<close>

lemma dom_EXCHANGE_RATES: "dom EXCHANGE_RATES = {''EUR'', ''USD'', ''AUD'', ''SAR''}"
  unfolding EXCHANGE_RATES_def by auto

text \<open>
  C7. Monetizing a saving with a currency that is not a key of the exchange-rate table
  is rejected: the lookup fails with \<^verbatim>\<open>KeyError\<close> on that currency (the outcome the
  specification names UnsupportedCurrency), which reaches the caller, and no amount is
  computed from a default currency.
\<close>

theorem unsupported_currency_rejected:
  assumes "currency \<notin> dom EXCHANGE_RATES"
  shows "total_cost_savings total_savings currency = Inl (KeyError currency)"
proof -
  from assms have "EXCHANGE_RATES currency = None" by (simp add: domIff)
  then show ?thesis unfolding total_cost_savings_def dict_index_def by simp
qed

theorem unsupported_currency_rejected_witness:
  "''GBP'' \<notin> dom EXCHANGE_RATES \<and> total_cost_savings 100 ''GBP'' = Inl (KeyError ''GBP'')"
proof -
  have h: "''GBP'' \<notin> dom EXCHANGE_RATES" unfolding dom_EXCHANGE_RATES by simp
  from h unsupported_currency_rejected [OF h, of 100] show ?thesis by (rule conjI)
qed

subsection \<open>The distance calculator\<close>

lemma get_coordinates_cases:
  "get_coordinates country city \<in>
     {(0, 0), (51.5074, - 0.1278), (48.8566, 2.3522), (40.7128, - 74.0060),
      (31.2304, 121.4737), (35.6762, 139.6503), (- 33.8688, 151.2093)}"
  unfolding get_coordinates_def dict_get_def LOCATIONS_def by simp

lemma get_coordinates_latitude:
  "- 90 \<le> fst (get_coordinates country city) \<and> fst (get_coordinates country city) \<le> 90"
  using get_coordinates_cases [of country city] by auto

lemma cos_radians_nonneg:
  assumes "- 90 \<le> lat" and "lat \<le> 90"
  shows "0 \<le> cos (radians lat)"
proof (rule cos_ge_zero)
  have p: "0 \<le> pi" by simp
  from assms(1) p have "(- 90) * pi \<le> lat * pi" by (rule mult_right_mono)
  then show "- (pi / 2) \<le> radians lat" unfolding radians_def by simp
  from assms(2) p have "lat * pi \<le> 90 * pi" by (rule mult_right_mono)
  then show "radians lat \<le> pi / 2" unfolding radians_def by simp
qed

lemma haversine_range:
  fixes p1 p2 l :: real
  assumes "0 \<le> cos p1" and "0 \<le> cos p2"
  shows "0 \<le> (sin ((p2 - p1) / 2))\<^sup>2 + cos p1 * cos p2 * (sin (l / 2))\<^sup>2"
    and "(sin ((p2 - p1) / 2))\<^sup>2 + cos p1 * cos p2 * (sin (l / 2))\<^sup>2 \<le> 1"
proof -
  let ?k = "cos p1 * cos p2"
  from assms have k: "0 \<le> ?k" by simp
  have s: "0 \<le> (sin (l / 2))\<^sup>2" "(sin (l / 2))\<^sup>2 \<le> 1"
    by (simp_all add: abs_square_le_1)
  from k s(1) have "0 \<le> ?k * (sin (l / 2))\<^sup>2" by (rule mult_nonneg_nonneg)
  then show "0 \<le> (sin ((p2 - p1) / 2))\<^sup>2 + ?k * (sin (l / 2))\<^sup>2" by simp
  from k s(2) have le: "?k * (sin (l / 2))\<^sup>2 \<le> ?k" using mult_left_mono by fastforce
  have "2 * ((p2 - p1) / 2) = p2 - p1" by simp
  with cos_double_sin [of "(p2 - p1) / 2"]
  have "cos (p2 - p1) = 1 - 2 * (sin ((p2 - p1) / 2))\<^sup>2" by (simp only:)
  then have h: "(sin ((p2 - p1) / 2))\<^sup>2 = (1 - cos (p2 - p1)) / 2" by simp
  have "cos (p2 - p1) + cos (p2 + p1) = 2 * ?k"
    by (simp add: cos_diff cos_add)
  then have "?k = (cos (p2 - p1) + cos (p2 + p1)) / 2" by simp
  with h have e: "(sin ((p2 - p1) / 2))\<^sup>2 + ?k = (1 + cos (p2 + p1)) / 2" by simp
  have "cos (p2 + p1) \<le> 1" by (rule cos_le_one)
  then have "(1 + cos (p2 + p1)) / 2 \<le> 1" by simp
  then have one: "(sin ((p2 - p1) / 2))\<^sup>2 + ?k \<le> 1" by (simp only: e)
  from le have "(sin ((p2 - p1) / 2))\<^sup>2 + ?k * (sin (l / 2))\<^sup>2
      \<le> (sin ((p2 - p1) / 2))\<^sup>2 + ?k" by (rule add_left_mono)
  from this one show "(sin ((p2 - p1) / 2))\<^sup>2 + ?k * (sin (l / 2))\<^sup>2 \<le> 1"
    by (rule order_trans)
qed

lemma radians_diff: "radians (x - y) = radians x - radians y"
  unfolding radians_def by (simp add: algebra_simps diff_divide_distrib)

lemma calculate_distance_resolved:
  assumes A: "get_coordinates country1 city1 = (lat1, lon1)"
    and B: "get_coordinates country2 city2 = (lat2, lon2)"
    and ns: "\<not> (lat1 = 0 \<and> lon1 = 0 \<or> lat2 = 0 \<and> lon2 = 0)"
  shows "calculate_distance country1 city1 country2 city2
           = Inr (py_round2 (haversine_spec (lat1, lon1) (lat2, lon2)))"
proof -
  let ?a = "(sin (radians (lat2 - lat1) / 2))\<^sup>2
              + cos (radians lat1) * cos (radians lat2) * (sin (radians (lon2 - lon1) / 2))\<^sup>2"
  from get_coordinates_latitude [of country1 city1] A
  have c1: "0 \<le> cos (radians lat1)" by (simp add: cos_radians_nonneg)
  from get_coordinates_latitude [of country2 city2] B
  have c2: "0 \<le> cos (radians lat2)" by (simp add: cos_radians_nonneg)
  from haversine_range [OF c1 c2, of "radians (lon2 - lon1)"]
  have a: "0 \<le> ?a" "?a \<le> 1" by (simp_all add: radians_diff)
  then have sq: "py_sqrt ?a = Inr (sqrt ?a)" "py_sqrt (1 - ?a) = Inr (sqrt (1 - ?a))"
    unfolding py_sqrt_def by simp_all
  from ns have "calculate_distance country1 city1 country2 city2
      = Inr (py_round2 (6371 * (2 * atan2 (sqrt ?a) (sqrt (1 - ?a)))))"
    unfolding calculate_distance_def A B Let_def by (simp only: sq prod.case sum.case if_False)
  also have "6371 * (2 * atan2 (sqrt ?a) (sqrt (1 - ?a))) = haversine_spec (lat1, lon1) (lat2, lon2)"
    unfolding haversine_spec_def radians_def Let_def by simp
  finally show ?thesis .
qed

text \<open>
  C5. For every pair of locations: if either endpoint resolves to the unresolved
  sentinel coordinate \<open>(0, 0)\<close>, \<^verbatim>\<open>calculate_distance\<close> returns exactly 500 km (the
  branch returns before any trigonometry); otherwise it returns the haversine
  great-circle distance with \<open>R = 6371\<close> km rounded to 2 decimals, and no
  \<^verbatim>\<open>ValueError\<close> is raised by the square roots.
\<close>

theorem calculate_distance_fallback_or_haversine:
  "(get_coordinates country1 city1 = (0, 0) \<or> get_coordinates country2 city2 = (0, 0)
      \<longrightarrow> calculate_distance country1 city1 country2 city2 = Inr 500)
   \<and> (\<not> (get_coordinates country1 city1 = (0, 0) \<or> get_coordinates country2 city2 = (0, 0))
      \<longrightarrow> calculate_distance country1 city1 country2 city2
            = Inr (py_round2 (haversine_spec (get_coordinates country1 city1)
                                             (get_coordinates country2 city2))))"
proof (intro conjI impI)
  assume "get_coordinates country1 city1 = (0, 0) \<or> get_coordinates country2 city2 = (0, 0)"
  then show "calculate_distance country1 city1 country2 city2 = Inr 500"
    unfolding calculate_distance_def by (auto split: prod.splits)
next
  obtain lat1 lon1 where A: "get_coordinates country1 city1 = (lat1, lon1)"
    by (cases "get_coordinates country1 city1")
  obtain lat2 lon2 where B: "get_coordinates country2 city2 = (lat2, lon2)"
    by (cases "get_coordinates country2 city2")
  assume "\<not> (get_coordinates country1 city1 = (0, 0) \<or> get_coordinates country2 city2 = (0, 0))"
  with A B have "\<not> (lat1 = 0 \<and> lon1 = 0 \<or> lat2 = 0 \<and> lon2 = 0)" by simp
  from calculate_distance_resolved [OF A B this] A B
  show "calculate_distance country1 city1 country2 city2
            = Inr (py_round2 (haversine_spec (get_coordinates country1 city1)
                                             (get_coordinates country2 city2)))" by simp
qed

theorem calculate_distance_fallback_or_haversine_witness:
  "get_coordinates ''Germany'' ''Berlin'' = (0, 0)
   \<and> calculate_distance ''Germany'' ''Berlin'' ''France'' ''Paris'' = Inr 500
   \<and> get_coordinates ''United Kingdom'' ''London'' \<noteq> (0, 0)
   \<and> get_coordinates ''France'' ''Paris'' \<noteq> (0, 0)
   \<and> calculate_distance ''United Kingdom'' ''London'' ''France'' ''Paris''
       = Inr (py_round2 (haversine_spec (51.5074, - 0.1278) (48.8566, 2.3522)))"
proof -
  have g: "get_coordinates ''Germany'' ''Berlin'' = (0, 0)"
    "get_coordinates ''United Kingdom'' ''London'' = (51.5074, - 0.1278)"
    "get_coordinates ''France'' ''Paris'' = (48.8566, 2.3522)"
    by (simp_all add: get_coordinates_def dict_get_def LOCATIONS_def)
  from g
    calculate_distance_fallback_or_haversine
      [where ?country1.0 = "''Germany''" and ?city1.0 = "''Berlin''"
         and ?country2.0 = "''France''" and ?city2.0 = "''Paris''"]
    calculate_distance_fallback_or_haversine
      [where ?country1.0 = "''United Kingdom''" and ?city1.0 = "''London''"
         and ?country2.0 = "''France''" and ?city2.0 = "''Paris''"]
  show ?thesis by simp
qed

lemma sin_half_diff_sq:
  fixes x y :: real
  shows "(sin ((x - y) * pi / 180 / 2))\<^sup>2 = (sin ((y - x) * pi / 180 / 2))\<^sup>2"
proof -
  have "x - y = - (y - x)" by simp
  then have "(x - y) * pi / 180 / 2 = - (y - x) * pi / 180 / 2" by (simp only:)
  then have "(x - y) * pi / 180 / 2 = - ((y - x) * pi / 180 / 2)"
    by (simp only: mult_minus_left minus_divide_left)
  then have "sin ((x - y) * pi / 180 / 2) = - sin ((y - x) * pi / 180 / 2)"
    by (simp only: sin_minus)
  then show ?thesis by (simp only: power2_minus)
qed

lemma haversine_spec_sym: "haversine_spec coordA coordB = haversine_spec coordB coordA"
proof -
  obtain lat1 lon1 where A: "coordA = (lat1, lon1)" by (cases coordA)
  obtain lat2 lon2 where B: "coordB = (lat2, lon2)" by (cases coordB)
  have "(sin ((lat2 - lat1) * pi / 180 / 2))\<^sup>2
          + cos (lat1 * pi / 180) * cos (lat2 * pi / 180) * (sin ((lon2 - lon1) * pi / 180 / 2))\<^sup>2
        = (sin ((lat1 - lat2) * pi / 180 / 2))\<^sup>2
          + cos (lat2 * pi / 180) * cos (lat1 * pi / 180) * (sin ((lon1 - lon2) * pi / 180 / 2))\<^sup>2"
    by (simp only: sin_half_diff_sq [of lat2 lat1] sin_half_diff_sq [of lon2 lon1]
          mult.commute [of "cos (lat1 * pi / 180)" "cos (lat2 * pi / 180)"])
  then show ?thesis unfolding A B haversine_spec_def Let_def prod.case by (simp only:)
qed

text \<open>
  C9. For every pair of locations A and B, \<^verbatim>\<open>calculate_distance(A, B)\<close> equals
  \<^verbatim>\<open>calculate_distance(B, A)\<close>, also when an endpoint resolves to the unresolved
  sentinel (both calls then return 500 km).
\<close>

theorem calculate_distance_symmetric:
  "calculate_distance country1 city1 country2 city2
     = calculate_distance country2 city2 country1 city1"
proof -
  obtain lat1 lon1 where A: "get_coordinates country1 city1 = (lat1, lon1)"
    by (cases "get_coordinates country1 city1")
  obtain lat2 lon2 where B: "get_coordinates country2 city2 = (lat2, lon2)"
    by (cases "get_coordinates country2 city2")
  show ?thesis
  proof (cases "lat1 = 0 \<and> lon1 = 0 \<or> lat2 = 0 \<and> lon2 = 0")
    case True
    then show ?thesis unfolding calculate_distance_def A B by auto
  next
    case False
    then have F': "\<not> (lat2 = 0 \<and> lon2 = 0 \<or> lat1 = 0 \<and> lon1 = 0)" by blast
    from calculate_distance_resolved [OF A B False] calculate_distance_resolved [OF B A F']
    show ?thesis by (simp only: haversine_spec_sym [of "(lat1, lon1)" "(lat2, lon2)"])
  qed
qed

section \<open>Properties in double arithmetic\<close>

subsection \<open>The loop of the optimizer\<close>

lemma factor_lookup_ieee:
  "dict_get EMISSION_FACTORS_ieee m (round_double 0.096) = factor_ieee m"
  unfolding dict_get_def EMISSION_FACTORS_ieee_def factor_ieee_def by simp

lemma dom_EMISSION_FACTORS_ieee:
  "dom EMISSION_FACTORS_ieee = {''Truck'', ''Train'', ''Ship'', ''Plane''}"
  unfolding EMISSION_FACTORS_ieee_def by auto

lemma dict_index_known_ieee:
  "m \<in> dom EMISSION_FACTORS_ieee \<Longrightarrow> dict_index EMISSION_FACTORS_ieee m = Inr (factor_ieee m)"
  unfolding dict_index_def dom_EMISSION_FACTORS_ieee
  by (auto simp: EMISSION_FACTORS_ieee_def factor_ieee_def)

lemma known_nonempty_ieee: "m \<in> dom EMISSION_FACTORS_ieee \<Longrightarrow> m \<noteq> []"
  unfolding dom_EMISSION_FACTORS_ieee by auto

lemma inf_times_not_Num: "inf_times x \<noteq> Num y"
  unfolding inf_times_def by simp

lemma dmul_value: "dmul a b = Num y \<Longrightarrow> round_double y = Num y"
  by (cases a; cases b) (auto simp: inf_times_not_Num dest: round_double_idem)

lemma dadd_zero: "dadd (dmul a b) (Num 0) = dmul a b"
proof (cases "dmul a b")
  case (Num y)
  then have "round_double y = Num y" by (rule dmul_value)
  with Num show ?thesis by simp
qed simp_all

lemma chosen_ieee_total:
  "fst (snd (chosen_ieee d w c)) = total_spec_ieee d w (segments_of_ieee c)"
proof -
  obtain mode1 ratio1 mode2 ratio2 where c: "c = (mode1, ratio1, mode2, ratio2)"
    by (cases c) auto
  show ?thesis
  proof (cases mode2)
    case None
    with c show ?thesis by (simp add: Let_def)
  next
    case (Some m2)
    with c show ?thesis by (simp add: Let_def dadd_zero)
  qed
qed

lemma route_loop_ieee_step:
  assumes "known_modes_ieee c"
  shows "route_loop_ieee d w (c # rest) (b, m, bb, bd) =
           (if dless (total_spec_ieee d w (segments_of_ieee c)) m
            then route_loop_ieee d w rest (chosen_ieee d w c)
            else route_loop_ieee d w rest (b, m, bb, bd))"
proof -
  obtain mode1 ratio1 mode2 ratio2 where c: "c = (mode1, ratio1, mode2, ratio2)"
    by (cases c) auto
  show ?thesis
  proof (cases mode2)
    case None
    with assms c show ?thesis
      by (simp add: known_modes_ieee_def dict_index_known_ieee Let_def)
  next
    case (Some m2)
    with assms c have "m2 \<in> dom EMISSION_FACTORS_ieee" "m2 \<noteq> []"
        "mode1 \<in> dom EMISSION_FACTORS_ieee"
      by (auto simp: known_modes_ieee_def known_nonempty_ieee)
    with Some c show ?thesis
      by (simp add: dict_index_known_ieee Let_def dadd_zero)
  qed
qed

lemma dless_trans_finite:
  assumes "is_finite x" and "is_finite y" and "\<not> dless x m" and "dless y m"
  shows "dless y x"
  using assms by (cases x; cases y; cases m) auto

lemma not_dless_finite:
  assumes "is_finite x" and "is_finite y" and "\<not> dless x y"
  shows "dle y x"
  using assms by (cases x; cases y) auto

lemma dless_finite_trans:
  assumes "is_finite x" and "is_finite y" and "dless x y" and "dless y m"
  shows "dless x m"
  using assms by (cases x; cases y; cases m) auto

lemma route_loop_ieee_first_minimum:
  assumes "\<forall>c \<in> set cs. known_modes_ieee c"
    and "\<forall>c \<in> set cs. is_finite (total_spec_ieee d w (segments_of_ieee c))"
  shows "(route_loop_ieee d w cs (b, m, bb, bd) = Inr (b, m, bb, bd) \<and>
            (\<forall>c \<in> set cs. \<not> dless (total_spec_ieee d w (segments_of_ieee c)) m))
         \<or> (\<exists>pre c post. cs = pre @ c # post
              \<and> route_loop_ieee d w cs (b, m, bb, bd) = Inr (chosen_ieee d w c)
              \<and> dless (total_spec_ieee d w (segments_of_ieee c)) m
              \<and> (\<forall>p \<in> set pre. dless (total_spec_ieee d w (segments_of_ieee c))
                                       (total_spec_ieee d w (segments_of_ieee p)))
              \<and> (\<forall>p \<in> set post. dle (total_spec_ieee d w (segments_of_ieee c))
                                       (total_spec_ieee d w (segments_of_ieee p))))"
  using assms
proof (induction cs arbitrary: b m bb bd)
  case Nil
  then show ?case by simp
next
  case (Cons c cs)
  let ?t = "\<lambda>x. total_spec_ieee d w (segments_of_ieee x)"
  from Cons.prems have kc: "known_modes_ieee c" and kcs: "\<forall>c \<in> set cs. known_modes_ieee c"
    and fc: "is_finite (?t c)" and fcs: "\<forall>c \<in> set cs. is_finite (?t c)" by auto
  obtain b' bb' bd' where ch: "chosen_ieee d w c = (b', ?t c, bb', bd')"
    using chosen_ieee_total [of d w c] by (cases "chosen_ieee d w c") auto
  show ?case
  proof (cases "dless (?t c) m")
    case True
    then have step: "route_loop_ieee d w (c # cs) (b, m, bb, bd)
        = route_loop_ieee d w cs (b', ?t c, bb', bd')"
      using route_loop_ieee_step [OF kc] ch by simp
    from Cons.IH [OF kcs fcs, of b' "?t c" bb' bd'] show ?thesis
    proof
      assume a: "route_loop_ieee d w cs (b', ?t c, bb', bd') = Inr (b', ?t c, bb', bd') \<and>
        (\<forall>x \<in> set cs. \<not> dless (?t x) (?t c))"
      then have "\<forall>x \<in> set cs. dle (?t c) (?t x)"
        using fc fcs by (auto intro: not_dless_finite)
      with a step True ch have "c # cs = [] @ c # cs
              \<and> route_loop_ieee d w (c # cs) (b, m, bb, bd) = Inr (chosen_ieee d w c)
              \<and> dless (?t c) m
              \<and> (\<forall>p \<in> set []. dless (?t c) (?t p))
              \<and> (\<forall>p \<in> set cs. dle (?t c) (?t p))" by simp
      then show ?thesis by blast
    next
      assume "\<exists>pre x post. cs = pre @ x # post
              \<and> route_loop_ieee d w cs (b', ?t c, bb', bd') = Inr (chosen_ieee d w x)
              \<and> dless (?t x) (?t c)
              \<and> (\<forall>p \<in> set pre. dless (?t x) (?t p))
              \<and> (\<forall>p \<in> set post. dle (?t x) (?t p))"
      then obtain pre x post where r: "cs = pre @ x # post"
        "route_loop_ieee d w cs (b', ?t c, bb', bd') = Inr (chosen_ieee d w x)"
        "dless (?t x) (?t c)"
        "\<forall>p \<in> set pre. dless (?t x) (?t p)" "\<forall>p \<in> set post. dle (?t x) (?t p)" by blast
      from r(1) fcs have fx: "is_finite (?t x)" by simp
      from fx fc r(3) True have "dless (?t x) m" by (rule dless_finite_trans)
      with r step have "c # cs = (c # pre) @ x # post
              \<and> route_loop_ieee d w (c # cs) (b, m, bb, bd) = Inr (chosen_ieee d w x)
              \<and> dless (?t x) m
              \<and> (\<forall>p \<in> set (c # pre). dless (?t x) (?t p))
              \<and> (\<forall>p \<in> set post. dle (?t x) (?t p))" by simp
      then show ?thesis by blast
    qed
  next
    case False
    then have step: "route_loop_ieee d w (c # cs) (b, m, bb, bd)
        = route_loop_ieee d w cs (b, m, bb, bd)"
      using route_loop_ieee_step [OF kc] by simp
    from Cons.IH [OF kcs fcs, of b m bb bd] show ?thesis
    proof
      assume "route_loop_ieee d w cs (b, m, bb, bd) = Inr (b, m, bb, bd) \<and>
        (\<forall>x \<in> set cs. \<not> dless (?t x) m)"
      with step False show ?thesis by simp
    next
      assume "\<exists>pre x post. cs = pre @ x # post
              \<and> route_loop_ieee d w cs (b, m, bb, bd) = Inr (chosen_ieee d w x)
              \<and> dless (?t x) m
              \<and> (\<forall>p \<in> set pre. dless (?t x) (?t p))
              \<and> (\<forall>p \<in> set post. dle (?t x) (?t p))"
      then obtain pre x post where r: "cs = pre @ x # post"
        "route_loop_ieee d w cs (b, m, bb, bd) = Inr (chosen_ieee d w x)"
        "dless (?t x) m"
        "\<forall>p \<in> set pre. dless (?t x) (?t p)" "\<forall>p \<in> set post. dle (?t x) (?t p)" by blast
      from r(1) fcs have fx: "is_finite (?t x)" by simp
      from fc fx False r(3) have "dless (?t x) (?t c)" by (rule dless_trans_finite)
      with r step have "c # cs = (c # pre) @ x # post
              \<and> route_loop_ieee d w (c # cs) (b, m, bb, bd) = Inr (chosen_ieee d w x)
              \<and> dless (?t x) m
              \<and> (\<forall>p \<in> set (c # pre). dless (?t x) (?t p))
              \<and> (\<forall>p \<in> set post. dle (?t x) (?t p))" by simp
      then show ?thesis by blast
    qed
  qed
qed

subsection \<open>Magnitudes and rounding errors\<close>

lemma abs_mult_le:
  fixes a b :: real
  assumes "\<bar>a\<bar> \<le> A" and "\<bar>b\<bar> \<le> B"
  shows "\<bar>a * b\<bar> \<le> A * B"
proof -
  have "\<bar>a * b\<bar> = \<bar>a\<bar> * \<bar>b\<bar>" by (rule abs_mult)
  also from assms have "\<dots> \<le> A * B" by (intro mult_mono) simp_all
  finally show ?thesis .
qed

lemma round_double_bounded:
  assumes "\<bar>x\<bar> \<le> B" and "1 \<le> B" and "B \<le> 10 ^ 300"
  shows "\<exists>y. round_double x = Num y \<and> \<bar>y - x\<bar> \<le> B / 9000000000000000"
proof -
  have "(10::real) ^ 300 \<le> 2 ^ 1023" by simp
  with assms have "\<bar>x\<bar> \<le> 2 ^ 1023" by linarith
  from round_double_error [OF this]
  obtain y where y: "round_double x = Num y" "\<bar>y - x\<bar> \<le> \<bar>x\<bar> / 2 ^ 53 + 1 / 2 ^ 1075" by blast
  from assms(1) have "\<bar>x\<bar> / 2 ^ 53 \<le> B / 2 ^ 53" by (simp add: divide_right_mono)
  moreover have "(1::real) / 2 ^ 53 + 1 / 2 ^ 1075 \<le> 1 / 9000000000000000" by simp
  then have "B * (1 / 2 ^ 53 + 1 / 2 ^ 1075) \<le> B * (1 / 9000000000000000)"
    using assms(2) by (intro mult_left_mono) simp_all
  then have "B / 2 ^ 53 + B / 2 ^ 1075 \<le> B / 9000000000000000" by (simp add: algebra_simps)
  moreover from assms(2) have "1 / 2 ^ 1075 \<le> B / 2 ^ 1075" by (simp add: divide_right_mono)
  ultimately have "\<bar>y - x\<bar> \<le> B / 9000000000000000" using y(2) by linarith
  with y(1) show ?thesis by blast
qed

lemma dmul_bounded:
  assumes "\<bar>a\<bar> \<le> A" and "\<bar>b\<bar> \<le> B" and "1 \<le> A * B" and "A * B \<le> 10 ^ 300"
  shows "\<exists>y. dmul (Num a) (Num b) = Num y \<and> \<bar>y - a * b\<bar> \<le> A * B / 9000000000000000"
proof -
  from assms(1,2) have "\<bar>a * b\<bar> \<le> A * B" by (rule abs_mult_le)
  from round_double_bounded [OF this assms(3,4)] show ?thesis by simp
qed

lemma ratio_literal:
  assumes "0 \<le> r" and "r \<le> 1"
  shows "\<exists>r'. round_double r = Num r' \<and> \<bar>r' - r\<bar> \<le> 1 / 9000000000000000"
proof -
  from assms have "\<bar>r\<bar> \<le> 1" by simp
  from round_double_bounded [OF this] show ?thesis by simp
qed

lemma factor_ieee_range: "\<exists>f. factor_ieee m = Num f \<and> 0 < f \<and> f \<le> 1"
proof -
  have "\<exists>f. round_double r = Num f \<and> 0 < f \<and> f \<le> 1" if "1 / 100 \<le> r" "r \<le> 9 / 10" for r
  proof -
    from that have "\<bar>r\<bar> \<le> 1" by simp
    from round_double_bounded [OF this] obtain f where
      f: "round_double r = Num f" "\<bar>f - r\<bar> \<le> 1 / 9000000000000000" by auto
    from f(2) that have "0 < f" "f \<le> 1" by linarith+
    with f(1) show ?thesis by blast
  qed
  then show ?thesis unfolding factor_ieee_def by simp
qed

text \<open>One segment: distance and CO2 are finite, and the distance is accurate.\<close>

lemma segment_bounded:
  assumes r: "0 \<le> r" "r \<le> 1" and x: "\<bar>x\<bar> \<le> 100000" and y: "\<bar>y\<bar> \<le> 10000"
  shows "\<exists>r' dist co2.
           round_double r = Num r' \<and> \<bar>r' - r\<bar> \<le> 1 / 9000000000000000
           \<and> dmul (Num x) (Num r') = Num dist \<and> \<bar>dist - x * r'\<bar> \<le> 2 / 100000000000
           \<and> segment_co2_ieee (Num x) (Num y) (m, Num r') = Num co2
           \<and> \<bar>co2\<bar> \<le> 1001000000"
proof -
  from ratio_literal [OF r] obtain r' where
    r': "round_double r = Num r'" "\<bar>r' - r\<bar> \<le> 1 / 9000000000000000" by blast
  from r r'(2) have r'b: "\<bar>r'\<bar> \<le> 1000001 / 1000000" by linarith
  from dmul_bounded [OF x r'b]
  obtain dist where d: "dmul (Num x) (Num r') = Num dist"
    "\<bar>dist - x * r'\<bar> \<le> 100000 * (1000001 / 1000000) / 9000000000000000" by auto
  from d(2) have dacc: "\<bar>dist - x * r'\<bar> \<le> 2 / 100000000000" by simp
  from abs_mult_le [OF x r'b] have "\<bar>x * r'\<bar> \<le> 1000001 / 10" by simp
  with dacc have db: "\<bar>dist\<bar> \<le> 100001" by linarith
  from dmul_bounded [OF db y]
  obtain p where p: "dmul (Num dist) (Num y) = Num p"
    "\<bar>p - dist * y\<bar> \<le> 100001 * 10000 / 9000000000000000" by auto
  from abs_mult_le [OF db y] have "\<bar>dist * y\<bar> \<le> 1000010000" by simp
  with p(2) have pb: "\<bar>p\<bar> \<le> 1000011000" by linarith
  from factor_ieee_range [of m] obtain f where f: "factor_ieee m = Num f" "0 < f" "f \<le> 1" by blast
  then have fb: "\<bar>f\<bar> \<le> 1" by linarith
  from dmul_bounded [OF pb fb]
  obtain co2 where c: "dmul (Num p) (Num f) = Num co2"
    "\<bar>co2 - p * f\<bar> \<le> 1000011000 * 1 / 9000000000000000" by auto
  from abs_mult_le [OF pb fb] have "\<bar>p * f\<bar> \<le> 1000011000" by simp
  with c(2) have cb: "\<bar>co2\<bar> \<le> 1001000000" by linarith
  from d(1) p(1) f(1) c(1) have "segment_co2_ieee (Num x) (Num y) (m, Num r') = Num co2" by simp
  with r' d(1) dacc cb show ?thesis by blast
qed

subsection \<open>The candidate table in double arithmetic\<close>

lemma combinations_ieee_refine_spec:
  "combinations_ieee country1 country2 (Num x)
     = map combination_of (candidates_spec (country1 \<noteq> country2) (band_spec x))"
  unfolding combinations_ieee_def Let_def band_spec_def by simp

lemma candidates_spec_shape:
  assumes "s \<in> set (candidates_spec ic b)"
  shows "share_ok s"
  using assms by (cases ic; cases b) (auto simp: dom_EMISSION_FACTORS_ieee)

lemma segments_of_combination:
  assumes "share_ok s"
  shows "segments_of_ieee (combination_of s) = literals s"
  using assms by (cases s rule: share_ok.cases) (simp_all add: literals_def)

lemma known_combination:
  assumes "share_ok s"
  shows "known_modes_ieee (combination_of s)"
  using assms by (cases s rule: share_ok.cases) (simp_all add: known_modes_ieee_def)

lemma combinations_ieee_segments:
  "map segments_of_ieee (combinations_ieee country1 country2 (Num x))
     = map literals (candidates_spec (country1 \<noteq> country2) (band_spec x))"
  unfolding combinations_ieee_refine_spec
  by (simp add: segments_of_combination candidates_spec_shape)

lemma combinations_ieee_known:
  "\<forall>c \<in> set (combinations_ieee country1 country2 (Num x)). known_modes_ieee c"
  unfolding combinations_ieee_refine_spec
  by (auto simp: known_combination candidates_spec_shape)

lemma combinations_ieee_nonempty: "combinations_ieee country1 country2 d \<noteq> []"
  unfolding combinations_ieee_def Let_def by simp

lemma dadd_bounded:
  assumes "\<bar>a\<bar> \<le> 1001000000" and "\<bar>b\<bar> \<le> 1001000000"
  shows "\<exists>t. dadd (Num a) (Num b) = Num t \<and> \<bar>t - (a + b)\<bar> \<le> 3 / 10000000
            \<and> \<bar>t\<bar> \<le> 2002000001"
proof -
  from assms have "\<bar>a + b\<bar> \<le> 2002000000" by linarith
  from round_double_bounded [OF this]
  obtain t where t: "round_double (a + b) = Num t" "\<bar>t - (a + b)\<bar> \<le> 2002000000 / 9000000000000000"
    by auto
  from t(2) have "\<bar>t - (a + b)\<bar> \<le> 3 / 10000000" by simp
  moreover from this \<open>\<bar>a + b\<bar> \<le> 2002000000\<close> have "\<bar>t\<bar> \<le> 2002000001" by linarith
  ultimately show ?thesis using t(1) by simp
qed

lemma py_round2_ieee_bounded:
  assumes "\<bar>s\<bar> \<le> 2002000001"
  shows "\<exists>t. py_round2_ieee (Num s) = Num t \<and> \<bar>t - s\<bar> \<le> 1 / 200 + 3 / 10000000"
proof -
  let ?k = "round_half_even (s * 100)"
  have "\<bar>real_of_int ?k - s * 100\<bar> \<le> 1 / 2" by (rule round_half_even_near)
  then have near: "\<bar>real_of_int ?k / 100 - s\<bar> \<le> 1 / 200" by linarith
  with assms have "\<bar>real_of_int ?k / 100\<bar> \<le> 2002000002" by linarith
  from round_double_bounded [OF this]
  obtain t where t: "round_double (real_of_int ?k / 100) = Num t"
    "\<bar>t - real_of_int ?k / 100\<bar> \<le> 2002000002 / 9000000000000000" by auto
  from t(2) have "\<bar>t - real_of_int ?k / 100\<bar> \<le> 3 / 10000000" by simp
  with near have "\<bar>t - s\<bar> \<le> 1 / 200 + 3 / 10000000" by linarith
  with t(1) show ?thesis by simp
qed

lemma chosen_bounded:
  assumes s: "share_ok s" and x: "\<bar>x\<bar> \<le> 100000" and y: "\<bar>y\<bar> \<le> 10000"
  shows "\<exists>mode1 ratio1 mode2 ratio2 dist1 dist2 co2_1 co2_2 total.
       combination_of s = (mode1, Num ratio1, mode2, Num ratio2)
     \<and> chosen_ieee (Num x) (Num y) (combination_of s)
         = (Some (combination_of s), Num total, Some (Num co2_1, Num co2_2),
            Some (Num dist1, Num dist2))
     \<and> dmul (Num x) (Num ratio1) = Num dist1
     \<and> (case mode2 of None \<Rightarrow> dist2 = 0 | Some m2 \<Rightarrow> dmul (Num x) (Num ratio2) = Num dist2)
     \<and> dmul (dmul (Num dist1) (Num y)) (factor_ieee mode1) = Num co2_1
     \<and> (case mode2 of None \<Rightarrow> co2_2 = 0
         | Some m2 \<Rightarrow> dmul (dmul (Num dist2) (Num y)) (factor_ieee m2) = Num co2_2)
     \<and> dadd (Num co2_1) (Num co2_2) = Num total
     \<and> \<bar>dist1 + dist2 - x\<bar> \<le> 1 / 1000000
     \<and> \<bar>total - (co2_1 + co2_2)\<bar> \<le> 3 / 10000000
     \<and> \<bar>total\<bar> \<le> 2002000001"
  using s
proof (cases s rule: share_ok.cases)
  case (1 mode1 r1 mode2 r2)
  with s have r: "0 \<le> r1" "r1 \<le> 1" "0 \<le> r2" "r2 \<le> 1" "r1 + r2 = 1" by simp_all
  from segment_bounded [OF r(1,2) x y, of mode1] obtain r1' dist1 co2_1 where
    a: "round_double r1 = Num r1'" "\<bar>r1' - r1\<bar> \<le> 1 / 9000000000000000"
       "dmul (Num x) (Num r1') = Num dist1" "\<bar>dist1 - x * r1'\<bar> \<le> 2 / 100000000000"
       "segment_co2_ieee (Num x) (Num y) (mode1, Num r1') = Num co2_1" "\<bar>co2_1\<bar> \<le> 1001000000"
    by blast
  from segment_bounded [OF r(3,4) x y, of mode2] obtain r2' dist2 co2_2 where
    b: "round_double r2 = Num r2'" "\<bar>r2' - r2\<bar> \<le> 1 / 9000000000000000"
       "dmul (Num x) (Num r2') = Num dist2" "\<bar>dist2 - x * r2'\<bar> \<le> 2 / 100000000000"
       "segment_co2_ieee (Num x) (Num y) (mode2, Num r2') = Num co2_2" "\<bar>co2_2\<bar> \<le> 1001000000"
    by blast
  from dadd_bounded [OF a(6) b(6)] obtain total where
    t: "dadd (Num co2_1) (Num co2_2) = Num total" "\<bar>total - (co2_1 + co2_2)\<bar> \<le> 3 / 10000000"
       "\<bar>total\<bar> \<le> 2002000001" by blast
  have c: "combination_of s = (mode1, Num r1', Some mode2, Num r2')"
    using 1 a(1) b(1) by simp
  from a(3,5) have c1: "dmul (dmul (Num dist1) (Num y)) (factor_ieee mode1) = Num co2_1" by simp
  from b(3,5) have c2: "dmul (dmul (Num dist2) (Num y)) (factor_ieee mode2) = Num co2_2" by simp
  have ch: "chosen_ieee (Num x) (Num y) (combination_of s)
         = (Some (combination_of s), Num total, Some (Num co2_1, Num co2_2),
            Some (Num dist1, Num dist2))"
    unfolding c by (simp only: chosen_ieee.simps Let_def option.case a(3) b(3) c1 c2 t(1))
  have e1: "\<bar>x * (r1' - r1)\<bar> \<le> 100000 * (1 / 9000000000000000)"
    using x a(2) by (rule abs_mult_le)
  have e2: "\<bar>x * (r2' - r2)\<bar> \<le> 100000 * (1 / 9000000000000000)"
    using x b(2) by (rule abs_mult_le)
  have "x * (r1 + r2) = x" using r(5) by simp
  then have "dist1 + dist2 - x
      = (dist1 - x * r1') + (dist2 - x * r2') + x * (r1' - r1) + x * (r2' - r2)"
    by (simp add: algebra_simps)
  with a(4) b(4) e1 e2 have dd: "\<bar>dist1 + dist2 - x\<bar> \<le> 1 / 1000000" by linarith
  from c ch a(3) b(3) c1 c2 t dd show ?thesis by simp
next
  case (2 mode1 r1)
  with s have r: "r1 = 1" by simp
  have r01: "(0::real) \<le> 1" "(1::real) \<le> 1" by simp_all
  from segment_bounded [OF r01 x y, of mode1] obtain r1' dist1 co2_1 where
    a: "round_double 1 = Num r1'" "\<bar>r1' - 1\<bar> \<le> 1 / 9000000000000000"
       "dmul (Num x) (Num r1') = Num dist1" "\<bar>dist1 - x * r1'\<bar> \<le> 2 / 100000000000"
       "segment_co2_ieee (Num x) (Num y) (mode1, Num r1') = Num co2_1" "\<bar>co2_1\<bar> \<le> 1001000000"
    by blast
  have z: "\<bar>0::real\<bar> \<le> 1001000000" by simp
  from dadd_bounded [OF a(6) z] obtain total where
    t: "dadd (Num co2_1) (Num 0) = Num total" "\<bar>total - (co2_1 + 0)\<bar> \<le> 3 / 10000000"
       "\<bar>total\<bar> \<le> 2002000001" by blast
  have c: "combination_of s = (mode1, Num r1', None, Num 0)"
    using 2 r a(1) by (simp add: round_double_def)
  from a(3,5) have c1: "dmul (dmul (Num dist1) (Num y)) (factor_ieee mode1) = Num co2_1" by simp
  have ch: "chosen_ieee (Num x) (Num y) (combination_of s)
         = (Some (combination_of s), Num total, Some (Num co2_1, Num 0),
            Some (Num dist1, Num 0))"
    unfolding c by (simp only: chosen_ieee.simps Let_def option.case a(3) c1 t(1))
  have e1: "\<bar>x * (r1' - 1)\<bar> \<le> 100000 * (1 / 9000000000000000)"
    using x a(2) by (rule abs_mult_le)
  have "dist1 + 0 - x = (dist1 - x * r1') + x * (r1' - 1)" by (simp add: algebra_simps)
  with a(4) e1 have dd: "\<bar>dist1 + 0 - x\<bar> \<le> 1 / 1000000" by linarith
  from c ch a(3) c1 t dd show ?thesis by simp
qed simp_all

subsection \<open>The optimizer in double arithmetic\<close>

lemma total_finite:
  assumes "share_ok s" and "\<bar>x\<bar> \<le> 100000" and "\<bar>y\<bar> \<le> 10000"
  shows "is_finite (total_spec_ieee (Num x) (Num y) (literals s))"
proof -
  from chosen_bounded [OF assms] obtain b total bb bd where
    "chosen_ieee (Num x) (Num y) (combination_of s) = (b, Num total, bb, bd)" by blast
  with chosen_ieee_total [of "Num x" "Num y" "combination_of s"]
  have "total_spec_ieee (Num x) (Num y) (segments_of_ieee (combination_of s)) = Num total"
    by simp
  with assms(1) show ?thesis by (simp add: segments_of_combination)
qed

lemma optimize_route_ieee_result:
  assumes "\<forall>s \<in> set (candidates_spec (country1 \<noteq> country2) (band_spec x)).
             is_finite (total_spec_ieee (Num x) w (literals s))"
  shows "\<exists>pre best post b m bb bd.
       candidates_spec (country1 \<noteq> country2) (band_spec x) = pre @ best # post
     \<and> chosen_ieee (Num x) w (combination_of best) = (b, m, bb, bd)
     \<and> optimize_route_ieee country1 city1 country2 city2 (Num x) w
         = Inr (b, py_round2_ieee m, bb, bd)
     \<and> (\<forall>p \<in> set pre. dless (total_spec_ieee (Num x) w (literals best))
                              (total_spec_ieee (Num x) w (literals p)))
     \<and> (\<forall>p \<in> set post. dle (total_spec_ieee (Num x) w (literals best))
                              (total_spec_ieee (Num x) w (literals p)))"
proof -
  let ?cands = "candidates_spec (country1 \<noteq> country2) (band_spec x)"
  let ?cs = "combinations_ieee country1 country2 (Num x)"
  let ?t = "\<lambda>c. total_spec_ieee (Num x) w (segments_of_ieee c)"
  let ?T = "\<lambda>s. total_spec_ieee (Num x) w (literals s)"
  have cs: "?cs = map combination_of ?cands" by (rule combinations_ieee_refine_spec)
  have seg: "?t (combination_of s) = ?T s" if "s \<in> set ?cands" for s
    using that by (simp add: segments_of_combination candidates_spec_shape)
  have known: "\<forall>c \<in> set ?cs. known_modes_ieee c" by (rule combinations_ieee_known)
  have fin: "\<forall>c \<in> set ?cs. is_finite (?t c)"
    unfolding cs using assms seg by auto
  obtain c0 rest where ne: "?cs = c0 # rest"
    using combinations_ieee_nonempty [of country1 country2 "Num x"] by (cases ?cs) auto
  with fin have "is_finite (?t c0)" by simp
  then have "dless (?t c0) PlusInf" by (cases "?t c0") simp_all
  with ne have "\<not> (\<forall>c \<in> set ?cs. \<not> dless (?t c) PlusInf)" by (metis list.set_intros(1))
  with route_loop_ieee_first_minimum [OF known fin, of None PlusInf None None]
  obtain pre c post where r: "?cs = pre @ c # post"
    "route_loop_ieee (Num x) w ?cs (None, PlusInf, None, None) = Inr (chosen_ieee (Num x) w c)"
    "\<forall>p \<in> set pre. dless (?t c) (?t p)" "\<forall>p \<in> set post. dle (?t c) (?t p)"
    by blast
  from r(1) cs have "map combination_of ?cands = pre @ c # post" by simp
  then obtain pre' best post' where sp: "?cands = pre' @ best # post'"
    "pre = map combination_of pre'" "c = combination_of best" "post = map combination_of post'"
    by (auto simp: map_eq_append_conv map_eq_Cons_conv)
  from sp(1) have mem: "best \<in> set ?cands" "set pre' \<subseteq> set ?cands" "set post' \<subseteq> set ?cands"
    by auto
  obtain b m bb bd where ch: "chosen_ieee (Num x) w (combination_of best) = (b, m, bb, bd)"
    by (cases "chosen_ieee (Num x) w (combination_of best)") auto
  from r(2) sp(3) ch have "optimize_route_ieee country1 city1 country2 city2 (Num x) w
         = Inr (b, py_round2_ieee m, bb, bd)"
    unfolding optimize_route_ieee_def Let_def by simp
  moreover from r(3) sp(2,3) mem have "\<forall>p \<in> set pre'. dless (?T best) (?T p)"
    by (auto simp: seg subset_iff)
  moreover from r(4) sp(3,4) mem have "\<forall>p \<in> set post'. dle (?T best) (?T p)"
    by (auto simp: seg subset_iff)
  ultimately show ?thesis using sp(1) ch by blast
qed

text \<open>
  C1, amended. For every origin and destination country, finite distance and positive
  weight for which no candidate total overflows (every total is a finite double),
  \<^verbatim>\<open>optimize_route\<close> evaluates exactly the candidate list that the table gives for the
  scope (intercontinental iff the two countries differ) and the distance band (short
  below 1000 km, medium from 1000 to below 5000 km, long from 5000 km), and returns a
  candidate of the strictly lowest total as computed in double arithmetic: every
  candidate before it in the enumeration order has a strictly greater total (so the
  first one wins an exact tie) and every candidate after it has a total at least as
  great. The reported total is that total rounded by \<^verbatim>\<open>round(x, 2)\<close>.
\<close>

theorem optimize_route_ieee_selects_first_minimum:
  assumes "0 < weight_tons"
    and "\<forall>s \<in> set (candidates_spec (country1 \<noteq> country2) (band_spec distance_km)).
           is_finite (total_spec_ieee (Num distance_km) (Num weight_tons) (literals s))"
  shows "\<exists>pre best post breakdown distances.
       combinations_ieee country1 country2 (Num distance_km)
         = map combination_of (candidates_spec (country1 \<noteq> country2) (band_spec distance_km))
     \<and> candidates_spec (country1 \<noteq> country2) (band_spec distance_km) = pre @ best # post
     \<and> optimize_route_ieee country1 city1 country2 city2 (Num distance_km) (Num weight_tons)
         = Inr (Some (combination_of best),
                py_round2_ieee (total_spec_ieee (Num distance_km) (Num weight_tons) (literals best)),
                breakdown, distances)
     \<and> (\<forall>p \<in> set pre.
           dless (total_spec_ieee (Num distance_km) (Num weight_tons) (literals best))
                 (total_spec_ieee (Num distance_km) (Num weight_tons) (literals p)))
     \<and> (\<forall>p \<in> set post.
           dle (total_spec_ieee (Num distance_km) (Num weight_tons) (literals best))
               (total_spec_ieee (Num distance_km) (Num weight_tons) (literals p)))"
proof -
  let ?d = "Num distance_km" and ?w = "Num weight_tons"
  let ?cands = "candidates_spec (country1 \<noteq> country2) (band_spec distance_km)"
  from optimize_route_ieee_result [OF assms(2), of city1 city2]
  obtain pre best post b m bb bd where r: "?cands = pre @ best # post"
    "chosen_ieee ?d ?w (combination_of best) = (b, m, bb, bd)"
    "optimize_route_ieee country1 city1 country2 city2 ?d ?w = Inr (b, py_round2_ieee m, bb, bd)"
    "\<forall>p \<in> set pre. dless (total_spec_ieee ?d ?w (literals best)) (total_spec_ieee ?d ?w (literals p))"
    "\<forall>p \<in> set post. dle (total_spec_ieee ?d ?w (literals best)) (total_spec_ieee ?d ?w (literals p))"
    by blast
  from r(1) have "best \<in> set ?cands" by simp
  then have ok: "share_ok best" by (rule candidates_spec_shape)
  from r(2) have "b = Some (combination_of best)"
    by (cases "combination_of best") (auto simp: Let_def)
  moreover from r(2) chosen_ieee_total [of ?d ?w "combination_of best"] ok
  have "m = total_spec_ieee ?d ?w (literals best)" by (simp add: segments_of_combination)
  moreover have "combinations_ieee country1 country2 ?d = map combination_of ?cands"
    by (rule combinations_ieee_refine_spec)
  ultimately show ?thesis using r(1,3,4,5) by blast
qed

end
